theory Spec2Isabelle
  imports Main
begin

section \<open>C integer arithmetic\<close>

text \<open>
  The allocator stores every size and tag in a C \<open>int\<close> and uses \<open>/\<close> and \<open>%\<close>, which
  truncate towards zero.  Header values are modelled as mathematical integers with these two
  operators spelled out.  A heap created by \<open>initRegion\<close> holds fewer than \<open>2 ^ 31\<close> bytes, so
  the additions of block sizes made by \<open>alloc_bf\<close>, \<open>free_block\<close> and \<open>coalesce\<close> stay in
  the range of \<open>int\<close>; the one sum that depends on the caller's argument alone, the rounding of
  \<open>regionSize\<close> to a page multiple, is wrapped to 32 bits with \<open>s32\<close>.
\<close>

definition c_div :: "int \<Rightarrow> int \<Rightarrow> int" where
  "c_div a b = sgn a * sgn b * (\<bar>a\<bar> div \<bar>b\<bar>)"

definition c_mod :: "int \<Rightarrow> int \<Rightarrow> int" where
  "c_mod a b = a - b * c_div a b"

definition s32 :: "int \<Rightarrow> int" where
  "s32 x = (x + 2147483648) mod 4294967296 - 2147483648"

section \<open>Global state of allocator.c\<close>

text \<open>
  Addresses are byte addresses.  The memory maps the address of a 4-byte \<open>header\<close> cell to the
  \<open>block_info\<close> stored there; every header and footer the allocator touches in a well-formed
  heap lies at a multiple of 4, so cells never overlap.  An access outside the mapped region,
  which would fault, is not told apart from any other; a heap laid out as a block list has
  none.  \<open>NULL\<close> is address 0.  The makefile builds with \<open>-m32\<close>: \<open>int\<close>, pointers and
  \<open>unsigned long\<close> are 32 bits wide.
\<close>

type_synonym addr = int
type_synonym heap = "addr \<Rightarrow> int"

record state =
  first_block :: addr
  totalallocation :: int
  done_flag :: int
  mem :: heap

text \<open>The globals as the C runtime initialises them (\<open>done_flag\<close> is the static \<open>done\<close>).\<close>

definition initial_state :: state where
  "initial_state = \<lparr>first_block = 0, totalallocation = 0, done_flag = 0, mem = (\<lambda>_. 0)\<rparr>"

section \<open>alloc_bf\<close>

text \<open>
  The \<open>while\<close> loop of \<open>alloc_bf\<close>.  The loop state is \<open>this\<close> and \<open>best\<close> (\<open>None\<close> is
  \<open>NULL\<close>); the result is the loop state on exit, so that the place where the scan stopped is
  visible.  A scan that never reaches an end mark has no result.
\<close>

partial_function (option) bf_scan ::
  "heap \<Rightarrow> int \<Rightarrow> int \<Rightarrow> addr \<Rightarrow> addr option \<Rightarrow> (addr \<times> addr option) option" where
  "bf_scan m sz total_size this best =
     (if m this \<noteq> 1 then
        (let best1 =
               (if c_mod (m this) 2 = 0 \<and> c_div (m this) 8 * 8 \<ge> sz + 4 then
                  (case best of
                     None \<Rightarrow> Some this
                   | Some b \<Rightarrow>
                       if c_div (m this) 8 * 8 < c_div (m b) 8 * 8 then Some this else Some b)
                else best)
         in if (case best1 of None \<Rightarrow> False | Some b \<Rightarrow> c_div (m b) 8 * 8 = total_size)
            then Some (this, best1)
            else bf_scan m sz total_size (this + c_div (m this) 8 * 8) best1)
      else Some (this, best))"

text \<open>
  The writes of \<open>alloc_bf\<close> once a best-fit block has been found: either the split with its
  new header and footer, or the update of the next block's p-bit, and then the header of
  \<open>best\<close> itself.
\<close>

definition place_best :: "heap \<Rightarrow> addr \<Rightarrow> int \<Rightarrow> heap" where
  "place_best m best total_size =
     (let m1 =
            (if c_div (m best) 8 * 8 - total_size \<ge> 8 then
               (let split = best + total_size;
                    ma = m(split := c_div (m best) 8 * 8 - total_size + 2);
                    footer = split + c_div (ma split) 8 * 8 - 4
                in ma(footer := ma split - 2))
             else
               (let nextblock = best + c_div (m best) 8 * 8
                in if m nextblock \<noteq> 1 then m(nextblock := m nextblock + 2) else m))
      in m1(best := 1 + c_mod (m1 best) 8 + total_size))"

definition alloc_bf :: "state \<Rightarrow> int \<Rightarrow> (addr option \<times> state) option" where
  "alloc_bf s sz =
     (if sz \<le> 0 then Some (None, s)
      else if sz > totalallocation s - 4 then Some (None, s)
      else
        (let padding = (if c_mod (sz + 4) 8 = 0 then 0 else 8 - c_mod (sz + 4) 8);
             total_size = sz + 4 + padding
         in case bf_scan (mem s) sz total_size (first_block s) None of
              None \<Rightarrow> None
            | Some (this, None) \<Rightarrow> Some (None, s)
            | Some (this, Some best) \<Rightarrow>
                Some (Some (best + 4), s\<lparr>mem := place_best (mem s) best total_size\<rparr>)))"

section \<open>free_block\<close>

text \<open>
  \<open>free_block\<close> returns \<open>-1\<close> from four places and \<open>0\<close> at the end; the result names the
  place, and \<open>free_rc\<close> is the C return value.
\<close>

datatype free_result = FreeOk | NullPtr | Misaligned | OutOfHeap | NotAllocated

fun free_rc :: "free_result \<Rightarrow> int" where
  "free_rc FreeOk = 0"
| "free_rc _ = -1"

definition free_block :: "state \<Rightarrow> addr \<Rightarrow> free_result \<times> state" where
  "free_block s ptr =
     (if ptr = 0 then (NullPtr, s)
      else if ptr mod 8 \<noteq> 0 then (Misaligned, s)
      else if ptr < first_block s \<or> ptr > (first_block s + totalallocation s) mod 4294967296
        then (OutOfHeap, s)
      else if c_mod (mem s (ptr - 4)) 2 \<noteq> 1 then (NotAllocated, s)
      else
        (let m = mem s;
             this = ptr - 4;
             m1 = m(this := m this - 1);
             this_size = c_div (m1 this) 8 * 8;
             this_foot = this + this_size - 4;
             m2 = m1(this_foot := this_size);
             next = this + c_div (m2 this) 8 * 8;
             m3 = (if m2 next \<noteq> 1 then m2(next := m2 next - 2) else m2)
         in (FreeOk, s\<lparr>mem := m3\<rparr>)))"

section \<open>coalesce\<close>

text \<open>
  One iteration of the \<open>while\<close> loop of \<open>coalesce\<close>, up to the pointer advance: on a
  free block, the merge with the next block (\<open>merge_next\<close>), then the merge into the previous
  block (\<open>merge_prev\<close>), which reads the updated header of \<open>this\<close>.
\<close>

definition merge_next :: "heap \<Rightarrow> addr \<Rightarrow> heap" where
  "merge_next m this =
     (let next = this + c_div (m this) 8 * 8
      in if m next \<noteq> 1 \<and> c_mod (m next) 2 = 0 then
           (let ma = m(this := m this + c_div (m next) 8 * 8);
                new_size = c_div (ma this) 8 * 8
            in ma(this + new_size - 4 := new_size))
         else m)"

definition merge_prev :: "heap \<Rightarrow> addr \<Rightarrow> heap" where
  "merge_prev m this =
     (if c_mod (m this) 8 = 0 then
        (let prev_size = m (this - 4);
             prev = this - prev_size;
             mb = m(prev := m prev + c_div (m this) 8 * 8);
             new_size = c_div (mb prev) 8 * 8
         in mb(prev + new_size - 4 := new_size))
      else m)"

definition coalesce_body :: "heap \<Rightarrow> addr \<Rightarrow> heap" where
  "coalesce_body m this =
     (if c_mod (m this) 2 = 0 then merge_prev (merge_next m this) this else m)"

partial_function (option) coalesce_loop :: "heap \<Rightarrow> addr \<Rightarrow> heap option" where
  "coalesce_loop m this =
     (if m this \<noteq> 1 then
        coalesce_loop (coalesce_body m this)
          (this + c_div (coalesce_body m this this) 8 * 8)
      else Some m)"

definition coalesce :: "state \<Rightarrow> (int \<times> state) option" where
  "coalesce s =
     (case coalesce_loop (mem s) (first_block s) of
        None \<Rightarrow> None
      | Some m' \<Rightarrow> Some (0, s\<lparr>mem := m'\<rparr>))"

section \<open>initRegion\<close>

text \<open>
  What \<open>initRegion\<close> obtains from the operating system: the page size, the descriptor returned
  by \<open>open\<close> (\<open>-1\<close> on failure) and, for a requested length, the address returned by \<open>mmap\<close>
  (\<open>None\<close> is \<open>MAP_FAILED\<close>).  A successful mapping of \<open>/dev/zero\<close> is zero-filled.
\<close>

record os_env =
  getpagesize :: int
  open_dev_zero :: int
  mmap :: "int \<Rightarrow> addr option"

definition initRegion :: "os_env \<Rightarrow> state \<Rightarrow> int \<Rightarrow> int \<times> state" where
  "initRegion e s regionSize =
     (if 0 \<noteq> done_flag s then (-1, s)
      else if regionSize \<le> 0 then (-1, s)
      else
        (let pagesize = getpagesize e;
             mem_padding = c_mod regionSize pagesize;
             mem_padding = c_mod (pagesize - mem_padding) pagesize;
             pagesize = s32 (regionSize + mem_padding);
             dir = open_dev_zero e
         in if -1 = dir then (-1, s)
            else
              (case mmap e pagesize of
                 None \<Rightarrow> (-1, s\<lparr>done_flag := 0\<rparr>)
               | Some mem_ptr \<Rightarrow>
                   (let m0 = (\<lambda>a. if mem_ptr \<le> a \<and> a < mem_ptr + pagesize then 0 else mem s a);
                        pagesize = s32 (pagesize - 8);
                        fb = mem_ptr + 4;
                        m1 = m0(fb := pagesize);
                        m2 = m1(fb := m1 fb + 2);
                        end = fb + pagesize;
                        m3 = m2(end := 1);
                        footer = fb + pagesize - 4;
                        m4 = m3(footer := pagesize)
                    in (0, s\<lparr>first_block := fb, done_flag := 1, mem := m4\<rparr>)))))"

section \<open>Block lists: the heap layout the functions maintain\<close>

text \<open>
  The comment on \<open>struct header\<close> describes the layout.  A block is its size (a multiple of 8,
  header included) and its a-bit; \<open>hdr\<close> is the \<open>block_info\<close> of a header with the p-bit
  \<open>p\<close>.  \<open>seg m a p bs\<close> says that the blocks \<open>bs\<close> lie back to back from address \<open>a\<close>, the
  block before \<open>a\<close> having a-bit \<open>p\<close>: every header holds size and both tag bits, every free
  block ends with a footer holding its size.  \<open>heap_is s bs\<close> adds the start at
  \<open>first_block\<close>, whose p-bit is set, and the end mark \<open>1\<close> behind the last block.
\<close>

type_synonym block = "int \<times> bool"

fun span :: "block list \<Rightarrow> int" where
  "span [] = 0"
| "span ((sz, al) # bs) = sz + span bs"

fun lastp :: "bool \<Rightarrow> block list \<Rightarrow> bool" where
  "lastp p [] = p"
| "lastp p ((sz, al) # bs) = lastp al bs"

definition hdr :: "int \<Rightarrow> bool \<Rightarrow> bool \<Rightarrow> int" where
  "hdr sz al p = sz + (if p then 2 else 0) + (if al then 1 else 0)"

fun seg :: "heap \<Rightarrow> addr \<Rightarrow> bool \<Rightarrow> block list \<Rightarrow> bool" where
  "seg m a p [] = True"
| "seg m a p ((sz, al) # bs) =
     (0 < sz \<and> sz mod 8 = 0 \<and> m a = hdr sz al p \<and> (\<not> al \<longrightarrow> m (a + sz - 4) = sz) \<and>
      seg m (a + sz) al bs)"

definition heap_is :: "state \<Rightarrow> block list \<Rightarrow> bool" where
  "heap_is s bs =
     (seg (mem s) (first_block s) True bs \<and> mem s (first_block s + span bs) = 1)"

text \<open>
  The block list after coalescing: every maximal run of free blocks joined into one block.
  \<open>free_cells a bs\<close> are the addresses inside the free blocks of a list laid out from \<open>a\<close>.
\<close>

fun join :: "block \<Rightarrow> block list \<Rightarrow> block list" where
  "join (s1, False) ((s2, False) # bs) = (s1 + s2, False) # bs"
| "join b bs = b # bs"

fun merge_free :: "block list \<Rightarrow> block list" where
  "merge_free [] = []"
| "merge_free (b # bs) = join b (merge_free bs)"

fun no_adjacent_free :: "block list \<Rightarrow> bool" where
  "no_adjacent_free ((s1, a1) # (s2, a2) # bs) =
     ((a1 \<or> a2) \<and> no_adjacent_free ((s2, a2) # bs))"
| "no_adjacent_free bs = True"

fun free_cells :: "addr \<Rightarrow> block list \<Rightarrow> addr set" where
  "free_cells a [] = {}"
| "free_cells a ((sz, al) # bs) = (if al then {} else {a ..< a + sz}) \<union> free_cells (a + sz) bs"

text \<open>
  The scan of \<open>alloc_bf\<close> read off the block list: \<open>scan_blocks\<close> is \<open>bf_scan\<close> with
  \<open>best\<close> carrying the size of the block it points to, \<open>need\<close> being the \<open>size + 4\<close> of
  the fit test and \<open>tot\<close> the \<open>total_size\<close> of the exit test.  \<open>round_up8\<close> is rounding up
  to a multiple of 8.
\<close>

definition round_up8 :: "int \<Rightarrow> int" where
  "round_up8 x = (x + 7) div 8 * 8"

fun scan_blocks ::
  "int \<Rightarrow> int \<Rightarrow> addr \<Rightarrow> block list \<Rightarrow> (addr \<times> int) option \<Rightarrow> addr \<times> (addr \<times> int) option" where
  "scan_blocks need tot a [] best = (a, best)"
| "scan_blocks need tot a ((sz, al) # bs) best =
     (let best1 =
            (if \<not> al \<and> need \<le> sz then
               (case best of
                  None \<Rightarrow> Some (a, sz)
                | Some (b, bsz) \<Rightarrow> if sz < bsz then Some (a, sz) else best)
             else best)
      in if (case best1 of None \<Rightarrow> False | Some (b, bsz) \<Rightarrow> bsz = tot)
         then (a, best1)
         else scan_blocks need tot (a + sz) bs best1)"

definition best_rel :: "heap \<Rightarrow> (addr \<times> int) option \<Rightarrow> addr option \<Rightarrow> bool" where
  "best_rel m best mb =
     (case best of None \<Rightarrow> mb = None | Some (b, bsz) \<Rightarrow> mb = Some b \<and> c_div (m b) 8 * 8 = bsz)"

text \<open>
  A block is a candidate when it is free and large enough; \<open>better best sz\<close> is the
  replacement test of the scan; \<open>found\<close> describes a scan result that chose the block of
  size \<open>sz\<close> between \<open>pre\<close> and \<open>suf\<close>.
\<close>

definition cand :: "int \<Rightarrow> block \<Rightarrow> bool" where
  "cand need b = (\<not> snd b \<and> need \<le> fst b)"

definition better :: "(addr \<times> int) option \<Rightarrow> int \<Rightarrow> bool" where
  "better best sz = (case best of None \<Rightarrow> True | Some (b0, s0) \<Rightarrow> sz < s0)"

definition found ::
  "int \<Rightarrow> int \<Rightarrow> addr \<Rightarrow> block list \<Rightarrow> addr \<times> (addr \<times> int) option \<Rightarrow>
   block list \<Rightarrow> int \<Rightarrow> block list \<Rightarrow> bool" where
  "found need tot a bs res pre sz suf =
     (bs = pre @ (sz, False) # suf \<and> need \<le> sz \<and> snd res = Some (a + span pre, sz) \<and>
      (\<forall>b\<in>set pre. cand need b \<longrightarrow> sz < fst b) \<and>
      (\<forall>b\<in>set suf. cand need b \<longrightarrow> sz \<le> fst b) \<and>
      fst res = (if sz = tot then a + span pre else a + span bs))"

section \<open>Example environment and heaps\<close>

text \<open>
  A Linux-like environment: 4096-byte pages, \<open>open\<close> succeeds, \<open>mmap\<close> returns the
  page-aligned address 65536.
\<close>

definition demo_env :: os_env where
  "demo_env = \<lparr>getpagesize = 4096, open_dev_zero = 3, mmap = (\<lambda>len. Some 65536)\<rparr>"

text \<open>
  Two heaps at \<open>first_block = 65540\<close> with \<open>totalallocation\<close> at the size of one page.
  \<open>frag_heap\<close> holds the blocks \<open>frag_blocks\<close>, with three free blocks in a row;
  \<open>tie_heap\<close> holds \<open>tie_blocks\<close>, with two free blocks of equal size.
\<close>

definition frag_blocks :: "block list" where
  "frag_blocks = [(16, True), (8, False), (16, False), (8, False), (24, True), (8, False)]"

definition frag_heap :: state where
  "frag_heap =
     \<lparr>first_block = 65540, totalallocation = 4096, done_flag = 1,
      mem = (\<lambda>_. 0)(65540 := 19, 65556 := 10, 65560 := 8, 65564 := 16, 65576 := 16,
                      65580 := 8, 65584 := 8, 65588 := 25, 65612 := 10, 65616 := 8,
                      65620 := 1)\<rparr>"

definition tie_blocks :: "block list" where
  "tie_blocks = [(16, True), (32, False), (24, True), (24, False), (16, True), (24, False)]"

definition tie_heap :: state where
  "tie_heap =
     \<lparr>first_block = 65540, totalallocation = 4096, done_flag = 1,
      mem = (\<lambda>_. 0)(65540 := 19, 65556 := 34, 65584 := 32, 65588 := 25, 65612 := 26,
                      65632 := 24, 65636 := 17, 65652 := 26, 65672 := 24, 65676 := 1)\<rparr>"

section \<open>Arithmetic of headers\<close>

lemma c_div_nonneg: "0 \<le> a \<Longrightarrow> 0 < b \<Longrightarrow> c_div a b = a div b"
  by (cases "a = 0") (simp_all add: c_div_def)

lemma c_mod_nonneg: "0 \<le> a \<Longrightarrow> 0 < b \<Longrightarrow> c_mod a b = a mod b"
  by (simp add: c_mod_def c_div_nonneg minus_mult_div_eq_mod)

lemma hdr_size: "0 < sz \<Longrightarrow> sz mod 8 = 0 \<Longrightarrow> c_div (hdr sz al p) 8 * 8 = sz"
  by (auto simp: hdr_def c_div_nonneg)

lemma mod8_plus: "sz mod 8 = 0 \<Longrightarrow> 0 \<le> k \<Longrightarrow> k < 8 \<Longrightarrow> (sz + k) mod 8 = (k::int)"
  by presburger

lemma mod8_mod2: "sz mod 8 = 0 \<Longrightarrow> (sz + k) mod 2 = (k::int) mod 2"
  by presburger

lemma hdr_abit: "0 < sz \<Longrightarrow> sz mod 8 = 0 \<Longrightarrow> c_mod (hdr sz al p) 2 = (if al then 1 else 0)"
  using mod8_mod2 [of sz 0] mod8_mod2 [of sz 1] mod8_mod2 [of sz 2] mod8_mod2 [of sz 3]
  by (auto simp: hdr_def c_mod_nonneg)

lemma hdr_tags:
  "0 < sz \<Longrightarrow> sz mod 8 = 0 \<Longrightarrow>
   c_mod (hdr sz al p) 8 = (if p then 2 else 0) + (if al then 1 else 0)"
  using mod8_plus [of sz 0] mod8_plus [of sz 1] mod8_plus [of sz 2] mod8_plus [of sz 3]
  by (auto simp: hdr_def c_mod_nonneg)

lemma hdr_not_end: "0 < sz \<Longrightarrow> sz mod 8 = 0 \<Longrightarrow> hdr sz al p \<noteq> 1"
  by (auto simp: hdr_def)

lemma hdr_free_prev_free: "hdr sz False False = sz"
  by (simp add: hdr_def)

lemma hdr_add: "hdr sz al p + k = hdr (sz + k) al p"
  by (simp add: hdr_def)

lemma seg_span_nonneg: "seg m a p bs \<Longrightarrow> 0 \<le> span bs"
  by (induction bs arbitrary: a p) auto

lemma span_append: "span (xs @ ys) = span xs + span ys"
  by (induction xs) auto

lemma lastp_append: "lastp p (xs @ ys) = lastp (lastp p xs) ys"
  by (induction xs arbitrary: p) auto

lemma seg_append:
  "seg m a p (xs @ ys) = (seg m a p xs \<and> seg m (a + span xs) (lastp p xs) ys)"
  by (induction xs arbitrary: a p) (auto simp: add.assoc)

lemma seg_frame:
  "seg m a p bs \<Longrightarrow> (\<forall>x. a \<le> x \<and> x < a + span bs \<longrightarrow> m' x = m x) \<Longrightarrow> seg m' a p bs"
proof (induction bs arbitrary: a p)
  case Nil
  then show ?case by simp
next
  case (Cons b bs)
  obtain sz al where b: "b = (sz, al)" by (cases b)
  from Cons.prems(1) have sz: "0 < sz" "sz mod 8 = 0" and tl: "seg m (a + sz) al bs"
    by (simp_all add: b)
  from tl have nn: "0 \<le> span bs" by (rule seg_span_nonneg)
  have "8 \<le> sz" using sz by presburger
  have h: "m' a = m a" using Cons.prems(2) sz nn by (simp add: b)
  have f: "m' (a + sz - 4) = m (a + sz - 4)" using Cons.prems(2) \<open>8 \<le> sz\<close> nn by (simp add: b)
  have "seg m' (a + sz) al bs"
    using Cons.IH [OF tl] Cons.prems(2) sz by (simp add: b)
  with Cons.prems(1) h f show ?case by (simp add: b)
qed

lemma join_join: "join (s1, False) (join (s2, False) bs) = join (s1 + s2, False) bs"
  by (cases "((s2, False), bs)" rule: join.cases) (auto simp: add.assoc)

lemma merge_free_join:
  "merge_free (xs @ (s1, False) # (s2, False) # ys) = merge_free (xs @ (s1 + s2, False) # ys)"
  by (induction xs) (auto simp: join_join)

lemma span_Cons: "span (b # bs) = fst b + span bs"
  by (cases b) simp

lemma no_adjacent_free_Cons:
  "no_adjacent_free (b # bs) = ((bs = [] \<or> snd b \<or> snd (hd bs)) \<and> no_adjacent_free bs)"
  by (cases b; cases bs) auto

lemma span_join: "span (join b bs) = fst b + span bs"
  by (cases "(b, bs)" rule: join.cases) (auto simp: span_Cons)

lemma span_merge_free: "span (merge_free bs) = span bs"
  by (induction bs) (auto simp: span_join)

lemma no_adjacent_free_join: "no_adjacent_free bs \<Longrightarrow> no_adjacent_free (join b bs)"
  by (cases "(b, bs)" rule: join.cases) (auto simp: no_adjacent_free_Cons)

lemma no_adjacent_free_merge_free: "no_adjacent_free (merge_free bs)"
  by (induction bs) (auto simp: no_adjacent_free_join)

lemma join_id: "no_adjacent_free (b # bs) \<Longrightarrow> join b bs = b # bs"
  by (cases "(b, bs)" rule: join.cases) auto

lemma merge_free_id: "no_adjacent_free bs \<Longrightarrow> merge_free bs = bs"
proof (induction bs)
  case Nil
  show ?case by simp
next
  case (Cons b bs)
  then have "merge_free bs = bs" by (simp add: no_adjacent_free_Cons)
  with Cons.prems show ?case by (simp add: join_id)
qed

lemma free_cells_append:
  "free_cells a (xs @ ys) = free_cells a xs \<union> free_cells (a + span xs) ys"
  by (induction xs arbitrary: a) (auto simp: add.assoc)

lemma free_cells_join:
  "0 < s1 \<Longrightarrow> 0 < s2 \<Longrightarrow>
   free_cells b (xs @ (s1 + s2, False) # ys) = free_cells b (xs @ (s1, False) # (s2, False) # ys)"
  by (auto simp: free_cells_append add.assoc)

lemma merge_next_layout:
  assumes lay: "seg m a p ((sz, False) # r)" and endm: "m (a + sz + span r) = 1"
  obtains szc rc where
    "seg (merge_next m a) a p ((szc, False) # rc)"
    "szc + span rc = sz + span r"
    "\<forall>x. x < a \<or> a + szc \<le> x \<longrightarrow> merge_next m a x = m x"
    "\<forall>xs. merge_free (xs @ (szc, False) # rc) = merge_free (xs @ (sz, False) # r)"
    "\<forall>b xs. free_cells b (xs @ (szc, False) # rc) = free_cells b (xs @ (sz, False) # r)"
    "length rc \<le> length r"
proof -
  from lay have sz: "0 < sz" "sz mod 8 = 0" and h: "m a = hdr sz False p"
    and tl: "seg m (a + sz) False r"
    by simp_all
  have nxt: "a + c_div (m a) 8 * 8 = a + sz" by (simp add: h hdr_size sz)
  show thesis
  proof (cases r)
    case Nil
    with endm have "m (a + sz) = 1" by simp
    then have "merge_next m a = m" by (simp add: merge_next_def nxt)
    with lay Nil that [of sz "[]"] show thesis by simp
  next
    case (Cons b2 r2)
    obtain sz2 al2 where b2: "b2 = (sz2, al2)" by (cases b2)
    from tl have sz2: "0 < sz2" "sz2 mod 8 = 0" and h2: "m (a + sz) = hdr sz2 al2 False"
      and tl2: "seg m (a + sz + sz2) al2 r2"
      by (simp_all add: Cons b2)
    show thesis
    proof (cases al2)
      case True
      then have "c_mod (m (a + sz)) 2 = 1" by (simp add: h2 hdr_abit sz2)
      then have "merge_next m a = m" by (simp add: merge_next_def nxt)
      with lay that [of sz r] show thesis by simp
    next
      case False
      have h2': "m (a + sz) = sz2" by (simp add: h2 False hdr_def)
      have even2: "c_mod (m (a + sz)) 2 = 0" by (simp add: h2 False hdr_abit sz2)
      have ne1: "m (a + sz) \<noteq> 1" by (simp add: h2 hdr_not_end sz2)
      have d2: "c_div (m (a + sz)) 8 * 8 = sz2" by (simp add: h2 hdr_size sz2)
      have szc: "0 < sz + sz2" "(sz + sz2) mod 8 = 0" using sz sz2 by presburger+
      have hn: "m a + sz2 = hdr (sz + sz2) False p" by (simp add: h hdr_def)
      have eq: "merge_next m a = m(a := hdr (sz + sz2) False p, a + (sz + sz2) - 4 := sz + sz2)"
        by (simp add: merge_next_def nxt even2 ne1 d2 hn Let_def hdr_size szc)
      have big: "8 \<le> sz" "8 \<le> sz2" using sz sz2 by presburger+
      have nn: "0 \<le> span r2" using tl2 by (rule seg_span_nonneg)
      have tl': "seg (merge_next m a) (a + (sz + sz2)) False r2"
        using seg_frame [OF tl2, of "merge_next m a"] big by (simp add: eq False add.assoc)
      have 1: "seg (merge_next m a) a p ((sz + sz2, False) # r2)"
        using tl' szc big by (simp add: eq)
      have 2: "(sz + sz2) + span r2 = sz + span r" by (simp add: Cons b2)
      have 3: "\<forall>x. x < a \<or> a + (sz + sz2) \<le> x \<longrightarrow> merge_next m a x = m x"
        using big by (auto simp: eq)
      have 4: "\<forall>xs. merge_free (xs @ (sz + sz2, False) # r2) = merge_free (xs @ (sz, False) # r)"
        by (simp add: Cons b2 False merge_free_join)
      have 5: "\<forall>b xs. free_cells b (xs @ (sz + sz2, False) # r2) =
                 free_cells b (xs @ (sz, False) # r)"
        using sz sz2 by (simp add: Cons b2 False free_cells_join)
      have 6: "length r2 \<le> length r" by (simp add: Cons)
      from that [OF 1 2 3 4 5 6] show thesis .
    qed
  qed
qed

lemma merge_prev_keep:
  "m a = hdr szc False True \<Longrightarrow> 0 < szc \<Longrightarrow> szc mod 8 = 0 \<Longrightarrow> merge_prev m a = m"
  by (simp add: merge_prev_def hdr_tags)

lemma merge_prev_layout:
  assumes prevb: "seg m q pp [(szp, False)]"
    and cur: "m (q + szp) = hdr szc False False" "0 < szc" "szc mod 8 = 0"
  shows "merge_prev m (q + szp) =
           m(q := hdr (szp + szc) False pp, q + (szp + szc) - 4 := szp + szc)"
proof -
  from prevb have szp: "0 < szp" "szp mod 8 = 0" and hp: "m q = hdr szp False pp"
    and fp: "m (q + szp - 4) = szp"
    by simp_all
  have t: "c_mod (m (q + szp)) 8 = 0" by (simp add: cur hdr_tags)
  have d: "c_div (m (q + szp)) 8 * 8 = szc" by (simp add: cur hdr_size)
  have s: "0 < szp + szc" "(szp + szc) mod 8 = 0" using szp cur by presburger+
  have hn: "m q + szc = hdr (szp + szc) False pp" by (simp add: hp hdr_def)
  show ?thesis
    using fp by (simp add: merge_prev_def t d hn Let_def hdr_size s)
qed

lemma no_adjacent_free_snoc:
  "no_adjacent_free (xs @ [(s, al)]) = (no_adjacent_free xs \<and> (al \<or> lastp True xs))"
proof (induction xs rule: no_adjacent_free.induct)
  case (1 s1 a1 s2 a2 bs)
  then show ?case by auto
qed auto

lemma lastp_snoc: "lastp p (xs @ [(s, al)]) = al"
  by (simp add: lastp_append)

lemma lastp_False_snoc:
  assumes "\<not> lastp True pre"
  obtains pre0 szp where "pre = pre0 @ [(szp, False)]"
proof (cases pre rule: rev_cases)
  case Nil
  with assms show thesis by simp
next
  case (snoc xs x)
  obtain s al where x: "x = (s, al)" by (cases x)
  with assms snoc have "\<not> al" by (simp add: lastp_append)
  with snoc x that show thesis by simp
qed

lemma free_cells_mem:
  "a + span xs \<le> x \<Longrightarrow> x < a + span xs + s \<Longrightarrow> x \<in> free_cells a (xs @ (s, False) # ys)"
  by (simp add: free_cells_append)

lemma coalesce_loop_end: "m a = 1 \<Longrightarrow> coalesce_loop m a = Some m"
  by (subst coalesce_loop.simps) simp

lemma coalesce_loop_step:
  "m a \<noteq> 1 \<Longrightarrow>
   coalesce_loop m a =
     coalesce_loop (coalesce_body m a) (a + c_div (coalesce_body m a a) 8 * 8)"
  by (subst coalesce_loop.simps) simp

lemma coalesce_loop_layout:
  "seg m fb True pre \<Longrightarrow> no_adjacent_free pre \<Longrightarrow>
   seg m (fb + span pre) (lastp True pre) rest \<Longrightarrow> m (fb + span pre + span rest) = 1 \<Longrightarrow>
   \<exists>m'. coalesce_loop m (fb + span pre) = Some m' \<and>
        seg m' fb True (merge_free (pre @ rest)) \<and>
        m' (fb + span pre + span rest) = 1 \<and>
        (\<forall>x. x \<notin> free_cells fb (pre @ rest) \<longrightarrow> m' x = m x)"
proof (induction rest arbitrary: pre m rule: length_induct)
  case (1 rest)
  note IH = "1.IH" [rule_format]
  note pre = \<open>seg m fb True pre\<close> and noadj = \<open>no_adjacent_free pre\<close>
    and rest = \<open>seg m (fb + span pre) (lastp True pre) rest\<close>
    and endm = \<open>m (fb + span pre + span rest) = 1\<close>
  let ?t = "fb + span pre"
  show ?case
  proof (cases rest)
    case Nil
    have "coalesce_loop m ?t = Some m"
      using endm Nil by (simp add: coalesce_loop_end)
    then show ?thesis
      using pre noadj endm Nil by (simp add: merge_free_id)
  next
    case (Cons b rest')
    obtain sz al where b: "b = (sz, al)" by (cases b)
    from rest have sz: "0 < sz" "sz mod 8 = 0"
      and h: "m ?t = hdr sz al (lastp True pre)"
      and tl: "seg m (?t + sz) al rest'"
      by (simp_all add: Cons b)
    have ne: "m ?t \<noteq> 1" by (simp add: h hdr_not_end sz)
    show ?thesis
    proof (cases al)
      case True
      have body: "coalesce_body m ?t = m"
        by (simp add: coalesce_body_def h True hdr_abit sz)
      have step: "coalesce_loop m ?t = coalesce_loop m (?t + sz)"
        using coalesce_loop_step [of m ?t] ne by (simp add: body h hdr_size sz)
      let ?pre' = "pre @ [(sz, True)]"
      have a1: "seg m fb True ?pre'"
        using pre h sz by (simp add: seg_append True)
      have a2: "no_adjacent_free ?pre'" using noadj by (simp add: no_adjacent_free_snoc)
      have a3: "seg m (fb + span ?pre') (lastp True ?pre') rest'"
        using tl by (simp add: span_append lastp_snoc True add.assoc)
      have a4: "m (fb + span ?pre' + span rest') = 1"
        using endm by (simp add: span_append Cons b add.assoc)
      have len: "length rest' < length rest" by (simp add: Cons)
      from IH [OF len a1 a2 a3 a4] obtain m' where
        r: "coalesce_loop m (fb + span ?pre') = Some m'"
           "seg m' fb True (merge_free (?pre' @ rest'))"
           "m' (fb + span ?pre' + span rest') = 1"
           "\<forall>x. x \<notin> free_cells fb (?pre' @ rest') \<longrightarrow> m' x = m x"
        by blast
      have l: "?pre' @ rest' = pre @ rest" by (simp add: Cons b True)
      have "coalesce_loop m ?t = Some m'"
        using r(1) step by (simp add: span_append add.assoc)
      moreover have "m' (fb + span pre + span rest) = 1"
        using r(3) by (simp add: span_append Cons b add.assoc)
      ultimately show ?thesis using r(2,4) unfolding l by blast
    next
      case False
      from rest have lay: "seg m ?t (lastp True pre) ((sz, False) # rest')"
        by (simp add: Cons b False)
      have endm': "m (?t + sz + span rest') = 1"
        using endm by (simp add: Cons b add.assoc)
      from merge_next_layout [OF lay endm'] obtain szc rc where
        n1: "seg (merge_next m ?t) ?t (lastp True pre) ((szc, False) # rc)" and
        n2: "szc + span rc = sz + span rest'" and
        n3: "\<forall>x. x < ?t \<or> ?t + szc \<le> x \<longrightarrow> merge_next m ?t x = m x" and
        n4: "\<forall>xs. merge_free (xs @ (szc, False) # rc) = merge_free (xs @ (sz, False) # rest')" and
        n5: "\<forall>b xs. free_cells b (xs @ (szc, False) # rc) =
               free_cells b (xs @ (sz, False) # rest')" and
        n6: "length rc \<le> length rest'"
        by blast
      let ?m1 = "merge_next m ?t"
      from n1 have szc: "0 < szc" "szc mod 8 = 0"
        and h1: "?m1 ?t = hdr szc False (lastp True pre)"
        and f1: "?m1 (?t + szc - 4) = szc"
        and tl1: "seg ?m1 (?t + szc) False rc"
        by simp_all
      have big: "8 \<le> szc" using szc by presburger
      have nnp: "0 \<le> span pre" using pre by (rule seg_span_nonneg)
      have nnr: "0 \<le> span rc" using tl1 by (rule seg_span_nonneg)
      have pre1: "seg ?m1 fb True pre"
        using seg_frame [OF pre, of ?m1] n3 by simp
      have end1: "?m1 (?t + szc + span rc) = 1"
        using n3 nnr endm' n2 by (simp add: add.assoc)
      have len: "length rc < length rest" using n6 by (simp add: Cons)
      have even: "c_mod (m ?t) 2 = 0" by (simp add: h False hdr_abit sz)
      have lists: "rest = (sz, False) # rest'" by (simp add: Cons b False)
      have spans: "span rest = szc + span rc" using n2 by (simp add: Cons b)
      show ?thesis
      proof (cases "lastp True pre")
        case True
        have body: "coalesce_body m ?t = ?m1"
          using merge_prev_keep [of ?m1 ?t szc] h1 szc
          by (simp add: coalesce_body_def even True)
        have step: "coalesce_loop m ?t = coalesce_loop ?m1 (?t + szc)"
          using coalesce_loop_step [of m ?t] ne by (simp add: body h1 hdr_size szc)
        let ?pre' = "pre @ [(szc, False)]"
        have a1: "seg ?m1 fb True ?pre'"
          using pre1 h1 f1 szc by (simp add: seg_append True)
        have a2: "no_adjacent_free ?pre'"
          using noadj True by (simp add: no_adjacent_free_snoc)
        have a3: "seg ?m1 (fb + span ?pre') (lastp True ?pre') rc"
          using tl1 by (simp add: span_append lastp_snoc add.assoc)
        have a4: "?m1 (fb + span ?pre' + span rc) = 1"
          using end1 by (simp add: span_append add.assoc)
        from IH [OF len a1 a2 a3 a4] obtain m' where
          r: "coalesce_loop ?m1 (fb + span ?pre') = Some m'"
             "seg m' fb True (merge_free (?pre' @ rc))"
             "m' (fb + span ?pre' + span rc) = 1"
             "\<forall>x. x \<notin> free_cells fb (?pre' @ rc) \<longrightarrow> m' x = ?m1 x"
          by blast
        have l: "merge_free (?pre' @ rc) = merge_free (pre @ rest)"
          using n4 by (simp add: lists)
        have c: "free_cells fb (?pre' @ rc) = free_cells fb (pre @ rest)"
          using n5 by (simp add: lists)
        have g1: "coalesce_loop m ?t = Some m'"
          using r(1) step by (simp add: span_append add.assoc)
        have g2: "seg m' fb True (merge_free (pre @ rest))" using r(2) l by simp
        have g3: "m' (fb + span pre + span rest) = 1"
          using r(3) by (simp add: span_append spans add.assoc)
        have g4: "\<forall>x. x \<notin> free_cells fb (pre @ rest) \<longrightarrow> m' x = m x"
        proof (intro allI impI)
          fix x assume x: "x \<notin> free_cells fb (pre @ rest)"
          then have "x \<notin> free_cells fb (pre @ (szc, False) # rc)" using c by simp
          then have "x < ?t \<or> ?t + szc \<le> x"
            using free_cells_mem [of fb pre x szc rc] by force
          then have "?m1 x = m x" using n3 by blast
          moreover have "m' x = ?m1 x" using r(4) x c by simp
          ultimately show "m' x = m x" by simp
        qed
        from g1 g2 g3 g4 show ?thesis by blast
      next
        case False
        then obtain pre0 szp where p0: "pre = pre0 @ [(szp, False)]"
          by (rule lastp_False_snoc)
        let ?q = "fb + span pre0"
        let ?pp = "lastp True pre0"
        have thisq: "?t = ?q + szp" by (simp add: p0 span_append)
        from pre1 have pre01: "seg ?m1 fb True pre0" and pb: "seg ?m1 ?q ?pp [(szp, False)]"
          by (simp_all add: p0 seg_append)
        from pb have szp: "0 < szp" "szp mod 8 = 0" by simp_all
        from noadj have noadj0: "no_adjacent_free pre0" and pp: "?pp"
          by (simp_all add: p0 no_adjacent_free_snoc)
        have cur: "?m1 (?q + szp) = hdr szc False False"
          using h1 False by (simp add: thisq)
        let ?m2 = "?m1(?q := hdr (szp + szc) False ?pp, ?q + (szp + szc) - 4 := szp + szc)"
        have mp: "merge_prev ?m1 ?t = ?m2"
          using merge_prev_layout [OF pb cur szc] by (simp add: thisq)
        have body: "coalesce_body m ?t = ?m2"
          by (simp add: coalesce_body_def even mp)
        have m2this: "?m2 ?t = hdr szc False False"
          using cur szp big by (simp add: thisq)
        have step: "coalesce_loop m ?t = coalesce_loop ?m2 (?t + szc)"
        proof -
          have "coalesce_loop m ?t =
                  coalesce_loop (coalesce_body m ?t) (?t + c_div (coalesce_body m ?t ?t) 8 * 8)"
            using ne by (rule coalesce_loop_step)
          then show ?thesis by (simp only: body m2this hdr_size [OF szc])
        qed
        let ?pre' = "pre0 @ [(szp + szc, False)]"
        have nn0: "0 \<le> span pre0" using pre01 by (rule seg_span_nonneg)
        have s: "0 < szp + szc" "(szp + szc) mod 8 = 0" using szp szc by presburger+
        have b1: "seg ?m2 fb True pre0"
          using seg_frame [OF pre01, of ?m2] szp big by simp
        have a1: "seg ?m2 fb True ?pre'"
          using b1 s szp big by (simp add: seg_append)
        have a2: "no_adjacent_free ?pre'"
          using noadj0 pp by (simp add: no_adjacent_free_snoc)
        have tl2: "seg ?m2 (?t + szc) False rc"
          using seg_frame [OF tl1, of ?m2] szp big by (simp add: thisq)
        have a3: "seg ?m2 (fb + span ?pre') (lastp True ?pre') rc"
          using tl2 by (simp add: span_append lastp_snoc thisq add.assoc)
        have a4: "?m2 (fb + span ?pre' + span rc) = 1"
          using end1 szp big nnr by (simp add: span_append thisq add.assoc)
        from IH [OF len a1 a2 a3 a4] obtain m' where
          r: "coalesce_loop ?m2 (fb + span ?pre') = Some m'"
             "seg m' fb True (merge_free (?pre' @ rc))"
             "m' (fb + span ?pre' + span rc) = 1"
             "\<forall>x. x \<notin> free_cells fb (?pre' @ rc) \<longrightarrow> m' x = ?m2 x"
          by blast
        have l: "merge_free (?pre' @ rc) = merge_free (pre @ rest)"
          using n4 [rule_format, of pre] merge_free_join [of pre0 szp szc rc]
          by (simp add: lists p0)
        have c: "free_cells fb (?pre' @ rc) = free_cells fb (pre @ rest)"
          using n5 [rule_format, of fb pre] free_cells_join [OF szp(1) szc(1), of fb pre0 rc]
          by (simp add: lists p0)
        have g1: "coalesce_loop m ?t = Some m'"
          using r(1) step by (simp add: span_append thisq add.assoc)
        have g2: "seg m' fb True (merge_free (pre @ rest))" using r(2) l by simp
        have g3: "m' (fb + span pre + span rest) = 1"
          using r(3) by (simp add: span_append spans p0 add.assoc)
        have g4: "\<forall>x. x \<notin> free_cells fb (pre @ rest) \<longrightarrow> m' x = m x"
        proof (intro allI impI)
          fix x assume x: "x \<notin> free_cells fb (pre @ rest)"
          then have "x \<notin> free_cells fb (?pre' @ rc)" using c by simp
          then have out: "x < ?q \<or> ?q + (szp + szc) \<le> x"
            using free_cells_mem [of fb pre0 x "szp + szc" rc] by force
          then have "?m2 x = ?m1 x" using szp big by auto
          moreover have "?m1 x = m x" using n3 out szp by (auto simp: thisq)
          moreover have "m' x = ?m2 x" using r(4) x c by simp
          ultimately show "m' x = m x" by simp
        qed
        from g1 g2 g3 g4 show ?thesis by blast
      qed
    qed
  qed
qed

lemma merge_free_Nil_iff: "merge_free bs = [] \<longleftrightarrow> bs = []"
proof (cases bs)
  case Nil
  then show ?thesis by simp
next
  case (Cons b r)
  then show ?thesis by (cases "(b, merge_free r)" rule: join.cases) auto
qed

lemma hd_merge_free_alloc: "bs \<noteq> [] \<Longrightarrow> snd (hd bs) \<Longrightarrow> \<exists>s r. merge_free bs = (s, True) # r"
  by (cases bs) auto

lemma merge_free_run:
  "run \<noteq> [] \<Longrightarrow> \<forall>b\<in>set run. \<not> snd b \<Longrightarrow> post = [] \<or> snd (hd post) \<Longrightarrow>
   merge_free (run @ post) = (span run, False) # merge_free post"
proof (induction run)
  case Nil
  then show ?case by simp
next
  case (Cons b run)
  obtain s where b: "b = (s, False)" using Cons.prems(2) by (cases b) auto
  have mp: "merge_free post = [] \<or> (\<exists>s r. merge_free post = (s, True) # r)"
  proof (cases "post = []")
    case True
    then show ?thesis by simp
  next
    case False
    with Cons.prems(3) have "snd (hd post)" by simp
    with False show ?thesis using hd_merge_free_alloc by blast
  qed
  show ?case
  proof (cases "run = []")
    case True
    with mp show ?thesis by (auto simp: b)
  next
    case False
    with Cons have "merge_free (run @ post) = (span run, False) # merge_free post" by simp
    then show ?thesis by (simp add: b)
  qed
qed

lemma join_append: "bs \<noteq> [] \<Longrightarrow> join b (bs @ cs) = join b bs @ cs"
  by (cases "(b, bs)" rule: join.cases) auto

lemma merge_free_append_alloc:
  "lastp True pre \<Longrightarrow> merge_free (pre @ ys) = merge_free pre @ merge_free ys"
proof (induction pre)
  case Nil
  then show ?case by simp
next
  case (Cons b pre)
  obtain s al where b: "b = (s, al)" by (cases b)
  show ?case
  proof (cases "pre = []")
    case True
    with Cons.prems have "al" by (simp add: b)
    then show ?thesis by (simp add: True b)
  next
    case False
    then have "lastp True pre = lastp al pre" by (cases pre) auto
    with Cons b have "merge_free (pre @ ys) = merge_free pre @ merge_free ys" by simp
    moreover have "merge_free pre \<noteq> []" using False by (simp add: merge_free_Nil_iff)
    ultimately show ?thesis by (simp add: join_append)
  qed
qed

lemma merge_free_collapses_run:
  assumes "run \<noteq> []" "\<forall>b\<in>set run. \<not> snd b" "lastp True pre" "post = [] \<or> snd (hd post)"
  shows "merge_free (pre @ run @ post) = merge_free pre @ (span run, False) # merge_free post"
  using assms by (simp add: merge_free_append_alloc merge_free_run)

lemma merge_next_keep:
  assumes lay: "seg m a p ((sz, False) # r)" and endm: "m (a + sz + span r) = 1"
    and nxt: "r = [] \<or> snd (hd r)"
  shows "merge_next m a = m"
proof -
  from lay have sz: "0 < sz" "sz mod 8 = 0" and h: "m a = hdr sz False p"
    and tl: "seg m (a + sz) False r"
    by simp_all
  have n: "a + c_div (m a) 8 * 8 = a + sz" by (simp add: h hdr_size sz)
  show ?thesis
  proof (cases r)
    case Nil
    with endm have "m (a + sz) = 1" by simp
    then show ?thesis by (simp add: merge_next_def n)
  next
    case (Cons b2 r2)
    with nxt obtain sz2 where b2: "b2 = (sz2, True)" by (cases b2) auto
    from tl have "0 < sz2" "sz2 mod 8 = 0" "m (a + sz) = hdr sz2 True False"
      by (simp_all add: Cons b2)
    then have "c_mod (m (a + sz)) 2 = 1" by (simp add: hdr_abit)
    then show ?thesis by (simp add: merge_next_def n)
  qed
qed

lemma coalesce_loop_fixed:
  "seg m a p bs \<Longrightarrow> m (a + span bs) = 1 \<Longrightarrow> no_adjacent_free bs \<Longrightarrow>
   p \<or> bs = [] \<or> snd (hd bs) \<Longrightarrow> coalesce_loop m a = Some m"
proof (induction bs arbitrary: a p)
  case Nil
  then show ?case by (simp add: coalesce_loop_end)
next
  case (Cons b bs)
  obtain sz al where b: "b = (sz, al)" by (cases b)
  from Cons.prems(1) have sz: "0 < sz" "sz mod 8 = 0" and h: "m a = hdr sz al p"
    and tl: "seg m (a + sz) al bs"
    by (simp_all add: b)
  have ne: "m a \<noteq> 1" by (simp add: h hdr_not_end sz)
  have endm: "m (a + sz + span bs) = 1" using Cons.prems(2) by (simp add: b add.assoc)
  have noadj: "no_adjacent_free bs" and nb: "bs = [] \<or> al \<or> snd (hd bs)"
    using Cons.prems(3) by (simp_all add: no_adjacent_free_Cons b)
  have body: "coalesce_body m a = m"
  proof (cases al)
    case True
    then show ?thesis by (simp add: coalesce_body_def h hdr_abit sz)
  next
    case False
    with Cons.prems(4) have p: "p" by (simp add: b)
    from False nb have nx: "bs = [] \<or> snd (hd bs)" by simp
    have "seg m a p ((sz, False) # bs)" using Cons.prems(1) by (simp add: b False)
    then have "merge_next m a = m" using endm nx by (rule merge_next_keep)
    moreover have "merge_prev m a = m"
      using merge_prev_keep [of m a sz] h sz by (simp add: False p)
    ultimately show ?thesis by (simp add: coalesce_body_def)
  qed
  have "coalesce_loop m a = coalesce_loop m (a + sz)"
    using coalesce_loop_step [of m a] ne by (simp add: body h hdr_size sz)
  moreover have "coalesce_loop m (a + sz) = Some m"
    using Cons.IH [OF tl endm noadj] nb by auto
  ultimately show ?case by simp
qed

lemma free_cells_bounds:
  "seg m a p bs \<Longrightarrow> x \<in> free_cells a bs \<Longrightarrow> a \<le> x \<and> x < a + span bs"
proof (induction bs arbitrary: a p)
  case Nil
  then show ?case by simp
next
  case (Cons b bs)
  obtain sz al where b: "b = (sz, al)" by (cases b)
  from Cons.prems(1) have sz: "0 < sz" and tl: "seg m (a + sz) al bs"
    by (simp_all add: b)
  from tl have nn: "0 \<le> span bs" by (rule seg_span_nonneg)
  from Cons.prems(2) have "(a \<le> x \<and> x < a + sz) \<or> x \<in> free_cells (a + sz) bs"
    by (auto simp: b split: if_splits)
  then show ?case
  proof
    assume "a \<le> x \<and> x < a + sz"
    with nn show ?thesis by (simp add: b)
  next
    assume "x \<in> free_cells (a + sz) bs"
    from Cons.IH [OF tl this] sz show ?thesis by (simp add: b)
  qed
qed

lemma alloc_block_not_free_cell:
  assumes "seg m a p (pre @ (sz, True) # suf)" "a + span pre \<le> x" "x < a + span pre + sz"
  shows "x \<notin> free_cells a (pre @ (sz, True) # suf)"
proof -
  from assms(1) have p: "seg m a p pre" and s: "seg m (a + span pre + sz) True suf"
    by (simp_all add: seg_append)
  have "x \<notin> free_cells a pre" using free_cells_bounds [OF p, of x] assms(2) by auto
  moreover have "x \<notin> free_cells (a + span pre + sz) suf"
    using free_cells_bounds [OF s, of x] assms(3) by auto
  ultimately show ?thesis by (simp add: free_cells_append)
qed

lemma end_mark_not_free_cell: "seg m a p bs \<Longrightarrow> a + span bs \<notin> free_cells a bs"
  using free_cells_bounds [of m a p bs "a + span bs"] by auto

lemma coalesce_heap:
  assumes "heap_is s bs"
  shows "\<exists>m'. coalesce s = Some (0, s\<lparr>mem := m'\<rparr>) \<and> heap_is (s\<lparr>mem := m'\<rparr>) (merge_free bs) \<and>
           (\<forall>x. x \<notin> free_cells (first_block s) bs \<longrightarrow> m' x = mem s x)"
proof -
  from assms have lay: "seg (mem s) (first_block s) True bs"
    and endm: "mem s (first_block s + span bs) = 1"
    by (simp_all add: heap_is_def)
  from coalesce_loop_layout [of "mem s" "first_block s" "[]" bs] lay endm
  obtain m' where r: "coalesce_loop (mem s) (first_block s) = Some m'"
    "seg m' (first_block s) True (merge_free bs)"
    "m' (first_block s + span bs) = 1"
    "\<forall>x. x \<notin> free_cells (first_block s) bs \<longrightarrow> m' x = mem s x"
    by auto
  have "coalesce s = Some (0, s\<lparr>mem := m'\<rparr>)" by (simp add: coalesce_def r(1))
  moreover have "heap_is (s\<lparr>mem := m'\<rparr>) (merge_free bs)"
    using r(2,3) by (simp add: heap_is_def span_merge_free)
  ultimately show ?thesis using r(4) by blast
qed

lemma bf_scan_end: "m a = 1 \<Longrightarrow> bf_scan m need tot a best = Some (a, best)"
  by (subst bf_scan.simps) simp

lemma bf_scan_refines:
  "seg m a p bs \<Longrightarrow> m (a + span bs) = 1 \<Longrightarrow> best_rel m best mb \<Longrightarrow>
   bf_scan m (need - 4) tot a mb =
     Some (fst (scan_blocks need tot a bs best),
           map_option fst (snd (scan_blocks need tot a bs best)))"
proof (induction bs arbitrary: a p best mb)
  case Nil
  then show ?case by (auto simp: bf_scan_end best_rel_def split: option.splits)
next
  case (Cons b bs)
  obtain sz al where b: "b = (sz, al)" by (cases b)
  from Cons.prems(1) have sz: "0 < sz" "sz mod 8 = 0" and h: "m a = hdr sz al p"
    and tl: "seg m (a + sz) al bs"
    by (simp_all add: b)
  have ne: "m a \<noteq> 1" by (simp add: h hdr_not_end sz)
  have d: "c_div (m a) 8 * 8 = sz" by (simp add: h hdr_size sz)
  have e: "c_mod (m a) 2 = 0 \<longleftrightarrow> \<not> al" by (simp add: h hdr_abit sz)
  have endm: "m (a + sz + span bs) = 1" using Cons.prems(2) by (simp add: b add.assoc)
  define best1 where "best1 =
     (if \<not> al \<and> need \<le> sz then
        (case best of None \<Rightarrow> Some (a, sz)
         | Some (b, bsz) \<Rightarrow> if sz < bsz then Some (a, sz) else best)
      else best)"
  define mb1 where "mb1 =
     (if \<not> al \<and> need \<le> sz then
        (case mb of None \<Rightarrow> Some a
         | Some b \<Rightarrow> if c_div (m a) 8 * 8 < c_div (m b) 8 * 8 then Some a else Some b)
      else mb)"
  have r1: "best_rel m best1 mb1"
    using Cons.prems(3) d
    by (auto simp: best1_def mb1_def best_rel_def split: option.splits)
  have stop: "(case mb1 of None \<Rightarrow> False | Some b \<Rightarrow> c_div (m b) 8 * 8 = tot)
                = (case best1 of None \<Rightarrow> False | Some (b, bsz) \<Rightarrow> bsz = tot)"
    using r1 by (auto simp: best_rel_def split: option.splits)
  have "bf_scan m (need - 4) tot a mb =
              (if (case mb1 of None \<Rightarrow> False | Some b \<Rightarrow> c_div (m b) 8 * 8 = tot)
               then Some (a, mb1)
               else bf_scan m (need - 4) tot (a + sz) mb1)"
    by (subst bf_scan.simps) (simp add: ne Let_def d e mb1_def)
  then have unf: "bf_scan m (need - 4) tot a mb =
              (if (case best1 of None \<Rightarrow> False | Some (b, bsz) \<Rightarrow> bsz = tot)
               then Some (a, mb1)
               else bf_scan m (need - 4) tot (a + sz) mb1)"
    by (simp only: stop)
  have sb: "scan_blocks need tot a (b # bs) best =
              (if (case best1 of None \<Rightarrow> False | Some (b, bsz) \<Rightarrow> bsz = tot)
               then (a, best1) else scan_blocks need tot (a + sz) bs best1)"
    by (simp add: b best1_def Let_def)
  have m1: "mb1 = map_option fst best1"
    using r1 by (auto simp: best_rel_def split: option.splits)
  show ?case
    using Cons.IH [OF tl endm r1] by (simp add: unf sb m1)
qed

lemma found_Cons:
  assumes "found need tot (a + s) bs res pre sz suf" and "cand need (s, al) \<longrightarrow> sz < s"
  shows "found need tot a ((s, al) # bs) res ((s, al) # pre) sz suf"
  using assms by (auto simp: found_def add.assoc)

declare scan_blocks.simps(2) [simp del]

lemma scan_blocks_best:
  assumes "\<forall>b\<in>set bs. cand need b \<longrightarrow> tot \<le> fst b"
    and "case best of None \<Rightarrow> True | Some (b0, s0) \<Rightarrow> tot < s0"
  shows "(scan_blocks need tot a bs best = (a + span bs, best) \<and>
          (\<forall>b\<in>set bs. cand need b \<longrightarrow> \<not> better best (fst b))) \<or>
         (\<exists>pre sz suf. found need tot a bs (scan_blocks need tot a bs best) pre sz suf \<and>
            better best sz)"
  using assms
proof (induction bs arbitrary: a best rule: span.induct)
  case 1
  then show ?case by simp
next
  case (2 s al bs)
  note prems = "2.prems" and IH = "2.IH"
  from prems(1) have fit: "\<forall>b\<in>set bs. cand need b \<longrightarrow> tot \<le> fst b"
    and fitb: "cand need (s, al) \<longrightarrow> tot \<le> s"
    by simp_all
  have nostop: "\<not> (case best of None \<Rightarrow> False | Some (b0, s0) \<Rightarrow> s0 = tot)"
    using prems(2) by (auto split: option.splits)
  show ?case
  proof (cases "cand need (s, al) \<and> better best s")
    case True
    then have c: "\<not> al" "need \<le> s" and bt: "better best s" by (simp_all add: cand_def)
    have best1: "(if \<not> al \<and> need \<le> s then
                    (case best of None \<Rightarrow> Some (a, s)
                     | Some (b, bsz) \<Rightarrow> if s < bsz then Some (a, s) else best)
                  else best) = Some (a, s)"
      using c bt by (auto simp: better_def split: option.splits)
    have gen: "scan_blocks need tot a ((s, al) # bs) best =
                 (if s = tot then (a, Some (a, s))
                  else scan_blocks need tot (a + s) bs (Some (a, s)))"
      by (simp only: scan_blocks.simps Let_def best1 option.case prod.case)
    show ?thesis
    proof (cases "s = tot")
      case True
      have "scan_blocks need tot a ((s, al) # bs) best = (a, Some (a, s))"
        unfolding gen using True by simp
      then have "found need tot a ((s, al) # bs) (scan_blocks need tot a ((s, al) # bs) best) [] s bs"
        using c fit by (simp add: found_def True)
      with bt show ?thesis by blast
    next
      case False
      with fitb c have gt: "tot < s" by (simp add: cand_def)
      have step: "scan_blocks need tot a ((s, al) # bs) best =
                    scan_blocks need tot (a + s) bs (Some (a, s))"
        unfolding gen using False by simp
      from IH [OF fit, of "Some (a, s)" "a + s"] gt
      consider
        (keep) "scan_blocks need tot (a + s) bs (Some (a, s)) = (a + s + span bs, Some (a, s))"
               "\<forall>b\<in>set bs. cand need b \<longrightarrow> \<not> better (Some (a, s)) (fst b)"
      | (new) pre sz suf where
          "found need tot (a + s) bs (scan_blocks need tot (a + s) bs (Some (a, s))) pre sz suf"
          "better (Some (a, s)) sz"
        by auto
      then show ?thesis
      proof cases
        case keep
        have "found need tot a ((s, al) # bs) (scan_blocks need tot a ((s, al) # bs) best) [] s bs"
          unfolding step using keep c False by (auto simp: found_def better_def add.assoc)
        with bt show ?thesis by blast
      next
        case new
        from new(2) have lt: "sz < s" by (simp add: better_def)
        have "found need tot a ((s, al) # bs) (scan_blocks need tot a ((s, al) # bs) best) ((s, al) # pre) sz suf"
          unfolding step using new(1) lt by (intro found_Cons) simp_all
        moreover have "better best sz"
          using bt lt by (auto simp: better_def split: option.splits)
        ultimately show ?thesis by blast
      qed
    qed
  next
    case False
    have best1: "(if \<not> al \<and> need \<le> s then
                    (case best of None \<Rightarrow> Some (a, s)
                     | Some (b, bsz) \<Rightarrow> if s < bsz then Some (a, s) else best)
                  else best) = best"
      using False by (auto simp: cand_def better_def split: option.splits)
    have "scan_blocks need tot a ((s, al) # bs) best =
            (if (case best of None \<Rightarrow> False | Some (b0, s0) \<Rightarrow> s0 = tot) then (a, best)
             else scan_blocks need tot (a + s) bs best)"
      by (simp only: scan_blocks.simps Let_def best1)
    then have step: "scan_blocks need tot a ((s, al) # bs) best = scan_blocks need tot (a + s) bs best"
      using nostop by simp
    from IH [OF fit prems(2), of "a + s"]
    consider
      (keep) "scan_blocks need tot (a + s) bs best = (a + s + span bs, best)"
             "\<forall>b\<in>set bs. cand need b \<longrightarrow> \<not> better best (fst b)"
    | (new) pre sz suf where
        "found need tot (a + s) bs (scan_blocks need tot (a + s) bs best) pre sz suf"
        "better best sz"
      by auto
    then show ?thesis
    proof cases
      case keep
      then show ?thesis unfolding step using False by (auto simp: add.assoc)
    next
      case new
      have "cand need (s, al) \<longrightarrow> sz < s"
        using False new(2) by (auto simp: better_def split: option.splits)
      then have "found need tot a ((s, al) # bs) (scan_blocks need tot a ((s, al) # bs) best) ((s, al) # pre) sz suf"
        unfolding step using new(1) by (intro found_Cons) simp_all
      with new(2) show ?thesis by blast
    qed
  qed
qed

lemma round_up8_props: "round_up8 x mod 8 = 0" "x \<le> round_up8 x" "round_up8 x < x + 8"
  unfolding round_up8_def by presburger+

lemma round_up8_le: "sz mod 8 = 0 \<Longrightarrow> x \<le> sz \<longleftrightarrow> round_up8 x \<le> sz"
  unfolding round_up8_def by presburger

lemma round_up8_exact: "x mod 8 = 0 \<Longrightarrow> round_up8 x = x"
  unfolding round_up8_def by presburger

lemma round_up8_pad: "x mod 8 \<noteq> 0 \<Longrightarrow> x + (8 - x mod 8) = round_up8 x"
  unfolding round_up8_def by presburger

lemma padding_round_up:
  assumes "0 < n"
  shows "n + 4 + (if c_mod (n + 4) 8 = 0 then 0 else 8 - c_mod (n + 4) 8) = round_up8 (n + 4)"
proof -
  have "c_mod (n + 4) 8 = (n + 4) mod 8" using assms by (simp add: c_mod_nonneg)
  then show ?thesis by (simp add: round_up8_exact round_up8_pad)
qed

lemma seg_sizes: "seg m a p bs \<Longrightarrow> b \<in> set bs \<Longrightarrow> 0 < fst b \<and> fst b mod 8 = 0"
  by (induction bs arbitrary: a p) auto

lemma seg_pbit_set:
  assumes "seg m a False (x # r)"
  shows "seg (m(a := m a + 2)) a True (x # r)"
proof -
  obtain sz al where x: "x = (sz, al)" by (cases x)
  from assms have sz: "0 < sz" "sz mod 8 = 0" and h: "m a = hdr sz al False"
    and f: "\<not> al \<longrightarrow> m (a + sz - 4) = sz" and tl: "seg m (a + sz) al r"
    by (simp_all add: x)
  have big: "8 \<le> sz" using sz by presburger
  have "seg (m(a := m a + 2)) (a + sz) al r"
    using seg_frame [OF tl, of "m(a := m a + 2)"] sz by simp
  then show ?thesis using sz h f big by (simp add: x hdr_def)
qed

lemma seg_pbit_clear:
  assumes "seg m a True (x # r)"
  shows "seg (m(a := m a - 2)) a False (x # r)"
proof -
  obtain sz al where x: "x = (sz, al)" by (cases x)
  from assms have sz: "0 < sz" "sz mod 8 = 0" and h: "m a = hdr sz al True"
    and f: "\<not> al \<longrightarrow> m (a + sz - 4) = sz" and tl: "seg m (a + sz) al r"
    by (simp_all add: x)
  have big: "8 \<le> sz" using sz by presburger
  have "seg (m(a := m a - 2)) (a + sz) al r"
    using seg_frame [OF tl, of "m(a := m a - 2)"] sz by simp
  then show ?thesis using sz h f big by (simp add: x hdr_def)
qed

lemma place_best_split:
  assumes h: "m b = hdr cs False pb" and cs: "0 < cs" "cs mod 8 = 0"
    and T: "0 < T" "T mod 8 = 0" and room: "8 \<le> cs - T"
  shows "place_best m b T =
           m(b + T := hdr (cs - T) False True, b + cs - 4 := cs - T, b := hdr T True pb)"
proof -
  have d: "c_div (m b) 8 * 8 = cs" by (simp add: h hdr_size cs)
  have r: "0 < cs - T" "(cs - T) mod 8 = 0" using room cs T by presburger+
  have hs: "cs - T + 2 = hdr (cs - T) False True" by (simp add: hdr_def)
  have t: "c_mod (m b) 8 = (if pb then 2 else 0)" by (simp add: h hdr_tags cs)
  have hb: "1 + c_mod (m b) 8 + T = hdr T True pb" by (simp add: t hdr_def)
  have f: "hdr (cs - T) False True - 2 = cs - T" by (simp add: hdr_def)
  have a: "b + T + (cs - T) - 4 = b + cs - 4" by simp
  have ne: "b \<noteq> b + T" "b \<noteq> b + cs - 4" using T room by simp_all
  show ?thesis
    using ne room by (simp add: place_best_def d Let_def hs hdr_size r hb f a)
qed

lemma place_best_whole:
  assumes h: "m b = hdr cs False pb" and cs: "0 < cs" "cs mod 8 = 0"
  shows "place_best m b cs =
           (if m (b + cs) \<noteq> 1 then m(b + cs := m (b + cs) + 2) else m)(b := hdr cs True pb)"
proof -
  have d: "c_div (m b) 8 * 8 = cs" by (simp add: h hdr_size cs)
  have t: "c_mod (m b) 8 = (if pb then 2 else 0)" by (simp add: h hdr_tags cs)
  have hb: "1 + c_mod (m b) 8 + cs = hdr cs True pb" by (simp add: t hdr_def)
  show ?thesis
    using cs by (simp add: place_best_def d Let_def hb)
qed

lemma place_best_split_layout:
  assumes pre: "seg m fb True pre"
    and blk: "seg m (fb + span pre) (lastp True pre) ((cs, False) # suf)"
    and endm: "m (fb + span pre + cs + span suf) = 1"
    and T: "0 < T" "T mod 8 = 0" and room: "8 \<le> cs - T"
  shows "seg (place_best m (fb + span pre) T) fb True
           (pre @ (T, True) # (cs - T, False) # suf) \<and>
         place_best m (fb + span pre) T (fb + span pre + cs + span suf) = 1"
proof -
  let ?b = "fb + span pre"
  let ?pb = "lastp True pre"
  from blk have cs: "0 < cs" "cs mod 8 = 0" and h: "m ?b = hdr cs False ?pb"
    and tl: "seg m (?b + cs) False suf"
    by simp_all
  let ?m' = "m(?b + T := hdr (cs - T) False True, ?b + cs - 4 := cs - T, ?b := hdr T True ?pb)"
  have eq: "place_best m ?b T = ?m'" using h cs T room by (rule place_best_split)
  have r: "0 < cs - T" "(cs - T) mod 8 = 0" using room cs T by presburger+
  have nn: "0 \<le> span suf" using tl by (rule seg_span_nonneg)
  have p': "seg ?m' fb True pre"
    using seg_frame [OF pre, of ?m'] T room by simp
  have t': "seg ?m' (?b + cs) False suf"
    using seg_frame [OF tl, of ?m'] T room by simp
  have bigT: "8 \<le> T" using T by presburger
  have ne: "T \<noteq> cs - 4" "cs \<noteq> 4" using T cs by presburger+
  have "seg ?m' ?b ?pb ((T, True) # (cs - T, False) # suf)"
    using t' T r room bigT ne by (simp add: add.assoc)
  with p' have "seg ?m' fb True (pre @ (T, True) # (cs - T, False) # suf)"
    by (subst seg_append) blast
  moreover have "?m' (?b + cs + span suf) = 1"
    using endm nn T room by simp
  ultimately show ?thesis by (simp only: eq)
qed

lemma place_best_whole_layout:
  assumes pre: "seg m fb True pre"
    and blk: "seg m (fb + span pre) (lastp True pre) ((cs, False) # suf)"
    and endm: "m (fb + span pre + cs + span suf) = 1"
  shows "seg (place_best m (fb + span pre) cs) fb True (pre @ (cs, True) # suf) \<and>
         place_best m (fb + span pre) cs (fb + span pre + cs + span suf) = 1"
proof -
  let ?b = "fb + span pre"
  let ?pb = "lastp True pre"
  from blk have cs: "0 < cs" "cs mod 8 = 0" and h: "m ?b = hdr cs False ?pb"
    and tl: "seg m (?b + cs) False suf"
    by simp_all
  have big: "8 \<le> cs" using cs by presburger
  let ?m1 = "if m (?b + cs) \<noteq> 1 then m(?b + cs := m (?b + cs) + 2) else m"
  let ?m' = "?m1(?b := hdr cs True ?pb)"
  have eq: "place_best m ?b cs = ?m'" using h cs by (rule place_best_whole)
  have nn: "0 \<le> span suf" using tl by (rule seg_span_nonneg)
  have t1: "seg ?m1 (?b + cs) True suf \<and> ?m1 (?b + cs + span suf) = 1"
  proof (cases suf)
    case Nil
    with endm show ?thesis by simp
  next
    case (Cons x r)
    obtain s2 a2 where x: "x = (s2, a2)" by (cases x)
    from tl have s2: "0 < s2" "s2 mod 8 = 0" "m (?b + cs) = hdr s2 a2 False"
      by (simp_all add: Cons x)
    then have ne: "m (?b + cs) \<noteq> 1" by (simp add: hdr_not_end)
    have big2: "8 \<le> s2" using s2 by presburger
    have m1: "?m1 = m(?b + cs := m (?b + cs) + 2)" using ne by simp
    have "seg (m(?b + cs := m (?b + cs) + 2)) (?b + cs) True (x # r)"
      using tl unfolding Cons by (rule seg_pbit_set)
    then have g1: "seg ?m1 (?b + cs) True suf" by (simp only: m1 Cons)
    have "0 \<le> span r" using tl by (auto simp: Cons x dest: seg_span_nonneg)
    then have "?b + cs + span suf \<noteq> ?b + cs" using big2 by (simp add: Cons x)
    then have "?m1 (?b + cs + span suf) = 1" using endm by (simp add: m1)
    with g1 show ?thesis by blast
  qed
  have p1: "seg ?m1 fb True pre"
    using seg_frame [OF pre, of ?m1] cs by simp
  have p': "seg ?m' fb True pre"
    using seg_frame [OF p1, of ?m'] by simp
  have t': "seg ?m' (?b + cs) True suf"
    using seg_frame [OF conjunct1 [OF t1], of ?m'] cs by simp
  have "seg ?m' ?b ?pb ((cs, True) # suf)"
    using t' cs by simp
  with p' have "seg ?m' fb True (pre @ (cs, True) # suf)"
    by (subst seg_append) blast
  moreover have "?m' (?b + cs + span suf) = 1"
    using t1 nn cs by simp
  ultimately show ?thesis by (simp only: eq)
qed

section \<open>Example heaps are laid out as stated\<close>

lemma frag_heap_layout: "heap_is frag_heap frag_blocks"
  by (simp add: heap_is_def frag_heap_def frag_blocks_def hdr_def)

lemma tie_heap_layout: "heap_is tie_heap tie_blocks"
  by (simp add: heap_is_def tie_heap_def tie_blocks_def hdr_def)


section \<open>alloc_bf on a block list\<close>

lemma alloc_bf_success:
  assumes "alloc_bf s n = Some (Some p, s')"
  shows "0 < n" "n \<le> totalallocation s - 4"
  using assms by (auto simp: alloc_bf_def split: if_splits)

lemma alloc_bf_scan:
  assumes lay: "heap_is s bs" and n: "0 < n" "n \<le> totalallocation s - 4"
  shows "alloc_bf s n =
     (case snd (scan_blocks (n + 4) (round_up8 (n + 4)) (first_block s) bs None) of
        None \<Rightarrow> Some (None, s)
      | Some (b, bsz) \<Rightarrow>
          Some (Some (b + 4), s\<lparr>mem := place_best (mem s) b (round_up8 (n + 4))\<rparr>))"
proof -
  from lay have sg: "seg (mem s) (first_block s) True bs"
    and endm: "mem s (first_block s + span bs) = 1"
    by (simp_all add: heap_is_def)
  have r: "best_rel (mem s) None None" by (simp add: best_rel_def)
  have sc: "bf_scan (mem s) n (round_up8 (n + 4)) (first_block s) None =
          Some (fst (scan_blocks (n + 4) (round_up8 (n + 4)) (first_block s) bs None),
                map_option fst (snd (scan_blocks (n + 4) (round_up8 (n + 4)) (first_block s) bs None)))"
    using bf_scan_refines [OF sg endm r, of "n + 4" "round_up8 (n + 4)"] by simp
  have pad: "n + 4 + (if c_mod (n + 4) 8 = 0 then 0 else 8 - c_mod (n + 4) 8) = round_up8 (n + 4)"
    using n(1) by (rule padding_round_up)
  have "alloc_bf s n =
          (case bf_scan (mem s) n (round_up8 (n + 4)) (first_block s) None of
             None \<Rightarrow> None
           | Some (this, None) \<Rightarrow> Some (None, s)
           | Some (this, Some best) \<Rightarrow>
               Some (Some (best + 4), s\<lparr>mem := place_best (mem s) best (round_up8 (n + 4))\<rparr>))"
    using n unfolding alloc_bf_def Let_def pad by simp
  then show ?thesis
    by (simp add: sc split: option.splits)
qed

lemma alloc_bf_total:
  assumes "heap_is s bs"
  shows "\<exists>r. alloc_bf s n = Some r"
proof (cases "0 < n \<and> n \<le> totalallocation s - 4")
  case True
  then show ?thesis
    unfolding alloc_bf_scan [OF assms conjunct1 [OF True] conjunct2 [OF True]]
    by (simp split: option.splits)
next
  case False
  then show ?thesis by (auto simp: alloc_bf_def)
qed

lemma cand_round_up:
  assumes "seg m a p bs" "b \<in> set bs"
  shows "cand need b \<longleftrightarrow> \<not> snd b \<and> round_up8 need \<le> fst b"
  using seg_sizes [OF assms] round_up8_le [of "fst b" need] by (simp add: cand_def)

lemma alloc_bf_found:
  assumes lay: "heap_is s bs" and ok: "alloc_bf s n = Some (Some p, s')"
  shows "\<exists>pre sz suf.
           found (n + 4) (round_up8 (n + 4)) (first_block s) bs
             (scan_blocks (n + 4) (round_up8 (n + 4)) (first_block s) bs None) pre sz suf \<and>
           p = first_block s + span pre + 4 \<and>
           s' = s\<lparr>mem := place_best (mem s) (first_block s + span pre) (round_up8 (n + 4))\<rparr>"
proof -
  let ?T = "round_up8 (n + 4)"
  let ?res = "scan_blocks (n + 4) ?T (first_block s) bs None"
  from lay have sg: "seg (mem s) (first_block s) True bs" by (simp add: heap_is_def)
  note n = alloc_bf_success [OF ok]
  have fit: "\<forall>b\<in>set bs. cand (n + 4) b \<longrightarrow> ?T \<le> fst b"
    using cand_round_up [OF sg] by blast
  from ok obtain b bsz where res: "snd ?res = Some (b, bsz)" and p: "p = b + 4"
    and s': "s' = s\<lparr>mem := place_best (mem s) b ?T\<rparr>"
    unfolding alloc_bf_scan [OF lay n] by (auto split: option.splits)
  from scan_blocks_best [OF fit, of None "first_block s"] res
  obtain pre sz suf where f: "found (n + 4) ?T (first_block s) bs ?res pre sz suf"
    by auto
  then have "b = first_block s + span pre" using res by (simp add: found_def)
  with f p s' show ?thesis by blast
qed

section \<open>free_block on a block list\<close>

lemma free_block_mem:
  assumes h: "mem s (ptr - 4) = hdr sz True pb" and sz: "0 < sz" "sz mod 8 = 0"
    and ok: "free_block s ptr = (FreeOk, s')"
  shows "s' = s\<lparr>mem :=
           (if mem s (ptr - 4 + sz) \<noteq> 1
            then (mem s)(ptr - 4 := hdr sz False pb, ptr - 4 + sz - 4 := sz,
                         ptr - 4 + sz := mem s (ptr - 4 + sz) - 2)
            else (mem s)(ptr - 4 := hdr sz False pb, ptr - 4 + sz - 4 := sz))\<rparr>"
proof -
  have big: "8 \<le> sz" using sz by presburger
  let ?t = "ptr - 4"
  let ?m1 = "(mem s)(?t := mem s ?t - 1)"
  have h1: "mem s ?t - 1 = hdr sz False pb" by (simp add: h hdr_def)
  have a: "?m1 ?t = hdr sz False pb" by (simp add: h1)
  have d: "c_div (?m1 ?t) 8 * 8 = sz" by (simp only: a hdr_size [OF sz])
  let ?m2 = "?m1(?t + sz - 4 := sz)"
  have a2: "?m2 ?t = hdr sz False pb" using big by (simp add: h1)
  have d2: "c_div (?m2 ?t) 8 * 8 = sz" by (simp only: a2 hdr_size [OF sz])
  have n2: "?m2 (?t + sz) = mem s (?t + sz)" using big by simp
  from ok have chk: "ptr \<noteq> 0" "ptr mod 8 = 0"
    "\<not> (ptr < first_block s \<or> ptr > (first_block s + totalallocation s) mod 4294967296)"
    "c_mod (mem s (ptr - 4)) 2 = 1"
    by (auto simp: free_block_def split: if_splits)
  have "free_block s ptr =
          (FreeOk, s\<lparr>mem := (if ?m2 (?t + sz) \<noteq> 1
                                then ?m2(?t + sz := ?m2 (?t + sz) - 2) else ?m2)\<rparr>)"
    unfolding free_block_def Let_def d d2 using chk by simp
  with ok have "s' = s\<lparr>mem := (if ?m2 (?t + sz) \<noteq> 1
                                then ?m2(?t + sz := ?m2 (?t + sz) - 2) else ?m2)\<rparr>"
    by simp
  then show ?thesis unfolding n2 by (simp add: h1)
qed

section \<open>initRegion\<close>

lemma s32_id: "- 2147483648 \<le> x \<Longrightarrow> x < 2147483648 \<Longrightarrow> s32 x = x"
  by (simp add: s32_def)

lemma page_round_up:
  fixes r ps :: int
  assumes "0 < r" "0 < ps"
  shows "(r + (ps - r mod ps) mod ps) mod ps = 0" and "ps \<le> r + (ps - r mod ps) mod ps"
    and "r \<le> r + (ps - r mod ps) mod ps" and "r + (ps - r mod ps) mod ps < r + ps"
proof -
  define k where "k = r mod ps"
  define pd where "pd = (ps - k) mod ps"
  have k: "0 \<le> k" "k < ps" using assms by (simp_all add: k_def)
  have rk: "(r - k) mod ps = 0" by (simp add: k_def minus_mod_eq_mult_div)
  have pd: "pd = (if k = 0 then 0 else ps - k)"
  proof (cases "k = 0")
    case True
    then show ?thesis by (simp add: pd_def)
  next
    case False
    then have "0 \<le> ps - k" "ps - k < ps" using k by simp_all
    then have "(ps - k) mod ps = ps - k" by (rule mod_pos_pos_trivial)
    with False show ?thesis by (simp only: pd_def if_False)
  qed
  have m: "(r + pd) mod ps = 0"
  proof (cases "k = 0")
    case True
    with rk show ?thesis by (simp add: pd)
  next
    case False
    have "r + (ps - k) = (r - k) + ps" by simp
    then have "(r + (ps - k)) mod ps = (r - k) mod ps" by (simp only: mod_add_self2)
    with rk False show ?thesis by (simp only: pd if_False)
  qed
  have g: "r \<le> r + pd" using k by (simp add: pd)
  have l: "r + pd < r + ps" using k assms by (simp add: pd)
  have "0 < r + pd" using g assms by linarith
  moreover have "ps dvd r + pd" using m by (simp only: dvd_eq_mod_eq_0)
  ultimately have p: "ps \<le> r + pd" by (rule zdvd_imp_le [rotated])
  show "(r + (ps - r mod ps) mod ps) mod ps = 0" using m unfolding pd_def k_def .
  show "ps \<le> r + (ps - r mod ps) mod ps" using p unfolding pd_def k_def .
  show "r \<le> r + (ps - r mod ps) mod ps" using g unfolding pd_def k_def .
  show "r + (ps - r mod ps) mod ps < r + ps" using l unfolding pd_def k_def .
qed

lemma initRegion_success:
  assumes d: "done_flag s = 0" and r: "0 < regionSize" and ps: "0 < getpagesize e"
    and op: "open_dev_zero e \<noteq> - 1"
    and padded: "padded = regionSize + (getpagesize e - regionSize mod getpagesize e) mod getpagesize e"
    and bound: "padded \<le> 2147483647" and mm: "mmap e padded = Some mem_ptr"
  shows "initRegion e s regionSize =
           (0, s\<lparr>first_block := mem_ptr + 4, done_flag := 1,
                 mem := (\<lambda>a. if mem_ptr \<le> a \<and> a < mem_ptr + padded then 0 else mem s a)
                          (mem_ptr + 4 := padded - 8 + 2,
                           mem_ptr + 4 + (padded - 8) := 1,
                           mem_ptr + 4 + (padded - 8) - 4 := padded - 8)\<rparr>)"
proof -
  have c1: "c_mod regionSize (getpagesize e) = regionSize mod getpagesize e"
    using r ps by (simp add: c_mod_nonneg)
  have "0 \<le> getpagesize e - regionSize mod getpagesize e"
    using ps by (simp add: less_imp_le)
  then have c2: "c_mod (getpagesize e - regionSize mod getpagesize e) (getpagesize e) =
                 (getpagesize e - regionSize mod getpagesize e) mod getpagesize e"
    using ps by (simp add: c_mod_nonneg)
  have pos: "getpagesize e \<le> padded" unfolding padded using r ps by (rule page_round_up(2))
  have w1: "s32 padded = padded" using pos ps bound by (simp add: s32_id)
  have w2: "s32 (padded - 8) = padded - 8" using pos ps bound by (simp add: s32_id)
  have o: "- 1 \<noteq> open_dev_zero e" using op by simp
  show ?thesis
    unfolding initRegion_def Let_def c1 c2 padded [symmetric] w1 w2 mm
    using d r o by simp
qed

lemma totalallocation_initRegion:
  "totalallocation (snd (initRegion e s r)) = totalallocation s"
  by (simp add: initRegion_def Let_def split: option.splits)

lemma alloc_bf_no_capacity: "totalallocation s \<le> 4 \<Longrightarrow> alloc_bf s n = Some (None, s)"
  by (simp add: alloc_bf_def)

lemma demo_init:
  "initRegion demo_env initial_state 4096 =
     (0, initial_state\<lparr>first_block := 65540, done_flag := 1,
           mem := (\<lambda>a. if 65536 \<le> a \<and> a < 69632 then 0 else mem initial_state a)
                    (65540 := 4090, 69628 := 1, 69624 := 4088)\<rparr>)"
  using initRegion_success [of initial_state 4096 demo_env 4096 65536]
  by (simp add: initial_state_def demo_env_def)

lemma initRegion_alignment:
  assumes "fst (initRegion e s r) = 0" and "\<forall>len p. mmap e len = Some p \<longrightarrow> p mod 8 = 0"
  shows "first_block (snd (initRegion e s r)) mod 8 = 4"
proof -
  from assms(1) obtain p where "first_block (snd (initRegion e s r)) = p + 4" "p mod 8 = 0"
    using assms(2) by (auto simp: initRegion_def Let_def split: if_splits option.splits)
  then show ?thesis by presburger
qed

lemma globals_alloc_bf:
  "alloc_bf s n = Some (r, s') \<Longrightarrow>
   first_block s' = first_block s \<and> totalallocation s' = totalallocation s"
  by (auto simp: alloc_bf_def Let_def split: if_splits option.splits prod.splits)

lemma globals_free_block:
  "first_block (snd (free_block s p)) = first_block s \<and>
   totalallocation (snd (free_block s p)) = totalallocation s"
  by (simp add: free_block_def Let_def)

lemma globals_coalesce:
  "coalesce s = Some (r, s') \<Longrightarrow>
   first_block s' = first_block s \<and> totalallocation s' = totalallocation s"
  by (auto simp: coalesce_def split: option.splits)

section \<open>The example heaps, evaluated\<close>

lemma tie_alloc_12:
  "alloc_bf tie_heap 12 =
     Some (Some 65616, tie_heap\<lparr>mem := place_best (mem tie_heap) 65612 16\<rparr>)"
  by (simp add: alloc_bf_def tie_heap_def bf_scan.simps c_div_def c_mod_def Let_def)

lemma tie_alloc_20:
  "alloc_bf tie_heap 20 =
     Some (Some 65616, tie_heap\<lparr>mem := place_best (mem tie_heap) 65612 24\<rparr>)"
  by (simp add: alloc_bf_def tie_heap_def bf_scan.simps c_div_def c_mod_def Let_def)

lemma tie_scan_12: "bf_scan (mem tie_heap) 12 16 65540 None = Some (65676, Some 65612)"
  by (simp add: tie_heap_def bf_scan.simps c_div_def c_mod_def Let_def)

lemma tie_scan_20: "bf_scan (mem tie_heap) 20 24 65540 None = Some (65612, Some 65612)"
  by (simp add: tie_heap_def bf_scan.simps c_div_def c_mod_def Let_def)

lemma tie_alloc_100: "alloc_bf tie_heap 100 = Some (None, tie_heap)"
  by (simp add: alloc_bf_def tie_heap_def bf_scan.simps c_div_def c_mod_def Let_def)

lemma tie_free: "free_block tie_heap 65592 = (FreeOk, snd (free_block tie_heap 65592))"
  by (simp add: free_block_def tie_heap_def c_div_def c_mod_def Let_def)

lemma frag_double_free: "fst (free_block frag_heap 65560) = NotAllocated"
  by (simp add: free_block_def frag_heap_def c_div_def c_mod_def Let_def)

text \<open>
  The scenario \<open>init(4096)\<close>, \<open>alloc(100)\<close>, \<open>free\<close>, \<open>coalesce\<close> from a state in
  which \<open>totalallocation\<close> holds the padded size: the allocation returns the payload of a
  104-byte block, the free succeeds, and coalescing leaves one free block of 4088 bytes.
\<close>

lemma scenario_with_totalallocation_assigned:
  fixes s1 s2 s3 :: state
  assumes "s1 = (snd (initRegion demo_env initial_state 4096))\<lparr>totalallocation := 4096\<rparr>"
    and "s2 = s1\<lparr>mem := place_best (mem s1) 65540 104\<rparr>"
    and "s3 = snd (free_block s2 65544)"
  shows "alloc_bf s1 100 = Some (Some 65544, s2)" and "c_div (mem s2 65540) 8 * 8 = 104"
    and "fst (free_block s2 65544) = FreeOk"
    and "\<exists>s4. coalesce s3 = Some (0, s4) \<and> heap_is s4 [(4088, False)]"
proof -
  have z: "mem initial_state = (\<lambda>_. 0)" by (simp add: initial_state_def)
  have s1: "s1 = \<lparr>first_block = 65540, totalallocation = 4096, done_flag = 1,
                  mem = (\<lambda>_. 0)(65540 := 4090, 69628 := 1, 69624 := 4088)\<rparr>"
    unfolding assms(1) demo_init snd_conv z by (simp add: initial_state_def)
  show a: "alloc_bf s1 100 = Some (Some 65544, s2)"
    unfolding assms(2) s1
    by (simp add: alloc_bf_def bf_scan.simps c_div_def c_mod_def Let_def)
  have m2: "mem s2 65540 = 107" "mem s2 65644 = 3986" "mem s2 69624 = 3984" "mem s2 69628 = 1"
    "first_block s2 = 65540" "totalallocation s2 = 4096"
    unfolding assms(2) s1 by (simp_all add: place_best_def c_div_def c_mod_def Let_def)
  show "c_div (mem s2 65540) 8 * 8 = 104" by (simp add: m2 c_div_def)
  show f: "fst (free_block s2 65544) = FreeOk"
    by (simp add: free_block_def m2 c_div_def c_mod_def Let_def)
  have m3: "mem s3 65540 = 106" "mem s3 65640 = 104" "mem s3 65644 = 3984" "mem s3 69624 = 3984"
    "mem s3 69628 = 1" "first_block s3 = 65540"
    unfolding assms(3) by (simp_all add: free_block_def m2 c_div_def c_mod_def Let_def)
  have "heap_is s3 [(104, False), (3984, False)]"
    by (simp add: heap_is_def m3 hdr_def)
  from coalesce_heap [OF this] show "\<exists>s4. coalesce s3 = Some (0, s4) \<and> heap_is s4 [(4088, False)]"
    by auto
qed

section \<open>The claims\<close>

text \<open>
  Claim C1.  The scenario \<open>init(4096)\<close>, \<open>alloc(100)\<close>, \<open>free\<close>, \<open>coalesce\<close> on the
  code: \<open>initRegion\<close> succeeds but never assigns \<open>totalallocation\<close>, which stays 0, so
  \<open>alloc_bf 100\<close> fails its capacity test and returns \<open>NULL\<close> with the state unchanged,
  and \<open>free_block\<close> rejects the address the allocation should have returned.
\<close>

theorem scenario_alloc_returns_null:
  "fst (initRegion demo_env initial_state 4096) = 0 \<and>
   totalallocation (snd (initRegion demo_env initial_state 4096)) = 0 \<and>
   alloc_bf (snd (initRegion demo_env initial_state 4096)) 100 =
     Some (None, snd (initRegion demo_env initial_state 4096)) \<and>
   fst (free_block (snd (initRegion demo_env initial_state 4096)) 65544) = OutOfHeap"
proof -
  have t: "totalallocation (snd (initRegion demo_env initial_state 4096)) = 0"
    by (simp add: totalallocation_initRegion initial_state_def)
  have a: "alloc_bf (snd (initRegion demo_env initial_state 4096)) 100 =
             Some (None, snd (initRegion demo_env initial_state 4096))"
    by (rule alloc_bf_no_capacity) (simp add: t)
  have f: "fst (free_block (snd (initRegion demo_env initial_state 4096)) 65544) = OutOfHeap"
    by (simp only: demo_init snd_conv) (simp add: free_block_def initial_state_def)
  show ?thesis using t a f by (simp add: demo_init)
qed

text \<open>
  Claim C2.  On a heap laid out as a block list, a successful \<open>alloc_bf n\<close> returns the
  payload address of a free block of size at least \<open>round_up8 (n + 4)\<close>; every free block
  that fits and lies before it is strictly larger, every one behind it is at least as large;
  and the scan ends at the chosen block when its size is exactly \<open>round_up8 (n + 4)\<close> and
  at the end mark otherwise.
\<close>

theorem alloc_bf_best_fit:
  assumes "heap_is s bs" and "alloc_bf s n = Some (Some p, s')"
  shows "\<exists>pre sz suf. bs = pre @ (sz, False) # suf \<and> p = first_block s + span pre + 4 \<and>
           round_up8 (n + 4) \<le> sz \<and>
           (\<forall>b\<in>set pre. \<not> snd b \<and> round_up8 (n + 4) \<le> fst b \<longrightarrow> sz < fst b) \<and>
           (\<forall>b\<in>set suf. \<not> snd b \<and> round_up8 (n + 4) \<le> fst b \<longrightarrow> sz \<le> fst b) \<and>
           bf_scan (mem s) n (round_up8 (n + 4)) (first_block s) None =
             Some (if sz = round_up8 (n + 4) then first_block s + span pre
                   else first_block s + span bs, Some (p - 4))"
proof -
  let ?T = "round_up8 (n + 4)"
  let ?res = "scan_blocks (n + 4) ?T (first_block s) bs None"
  from assms(1) have sg: "seg (mem s) (first_block s) True bs"
    and endm: "mem s (first_block s + span bs) = 1"
    by (simp_all add: heap_is_def)
  from alloc_bf_found [OF assms] obtain pre sz suf where
    f: "found (n + 4) ?T (first_block s) bs ?res pre sz suf"
    and p: "p = first_block s + span pre + 4"
    by blast
  from f have bs: "bs = pre @ (sz, False) # suf" and fitsz: "n + 4 \<le> sz"
    and res2: "snd ?res = Some (first_block s + span pre, sz)"
    and cp: "\<forall>b\<in>set pre. cand (n + 4) b \<longrightarrow> sz < fst b"
    and cs: "\<forall>b\<in>set suf. cand (n + 4) b \<longrightarrow> sz \<le> fst b"
    and res1: "fst ?res = (if sz = ?T then first_block s + span pre else first_block s + span bs)"
    unfolding found_def by blast+
  have szm: "sz mod 8 = 0" using seg_sizes [OF sg, of "(sz, False)"] by (simp add: bs)
  have 1: "?T \<le> sz" using round_up8_le [OF szm, of "n + 4"] fitsz by simp
  have 2: "\<forall>b\<in>set pre. \<not> snd b \<and> ?T \<le> fst b \<longrightarrow> sz < fst b"
    using cp cand_round_up [OF sg, of _ "n + 4"] by (auto simp: bs)
  have 3: "\<forall>b\<in>set suf. \<not> snd b \<and> ?T \<le> fst b \<longrightarrow> sz \<le> fst b"
    using cs cand_round_up [OF sg, of _ "n + 4"] by (auto simp: bs)
  have r: "best_rel (mem s) None None" by (simp add: best_rel_def)
  have 4: "bf_scan (mem s) n ?T (first_block s) None =
             Some (if sz = ?T then first_block s + span pre else first_block s + span bs,
                   Some (p - 4))"
    using bf_scan_refines [OF sg endm r, of "n + 4" ?T] unfolding res1 res2 by (simp add: p)
  from bs p 1 2 3 4 show ?thesis by blast
qed

theorem alloc_bf_best_fit_witness:
  "heap_is tie_heap tie_blocks \<and>
   alloc_bf tie_heap 12 =
     Some (Some 65616, tie_heap\<lparr>mem := place_best (mem tie_heap) 65612 16\<rparr>) \<and>
   (\<exists>pre sz suf. tie_blocks = pre @ (sz, False) # suf \<and>
      65616 = first_block tie_heap + span pre + 4 \<and> 16 \<le> sz \<and>
      (\<forall>b\<in>set pre. \<not> snd b \<and> 16 \<le> fst b \<longrightarrow> sz < fst b) \<and>
      (\<forall>b\<in>set suf. \<not> snd b \<and> 16 \<le> fst b \<longrightarrow> sz \<le> fst b) \<and>
      bf_scan (mem tie_heap) 12 16 (first_block tie_heap) None =
        Some (if sz = 16 then first_block tie_heap + span pre
              else first_block tie_heap + span tie_blocks, Some 65612)) \<and>
   bf_scan (mem tie_heap) 12 16 65540 None = Some (65676, Some 65612) \<and>
   bf_scan (mem tie_heap) 20 24 65540 None = Some (65612, Some 65612)"
  using alloc_bf_best_fit [OF tie_heap_layout tie_alloc_12] tie_heap_layout tie_alloc_12
    tie_scan_12 tie_scan_20
  by (simp add: round_up8_def)

text \<open>
  Claim C3.  On a heap laid out as a block list, let a successful \<open>alloc_bf n\<close> choose the
  free block of size \<open>cs\<close> between \<open>pre\<close> and \<open>suf\<close>.  If \<open>cs\<close> exceeds
  \<open>round_up8 (n + 4)\<close> by at least 8, the block is split into an allocated block of that
  size and a free rest whose header has the p-bit set and whose footer holds its size;
  otherwise the whole block is allocated and the next header, unless it is the end mark, gets
  its p-bit set.  In both cases the header of the allocated block has the a-bit set and the
  p-bit it had before.
\<close>

theorem alloc_bf_split_rule:
  assumes "heap_is s bs" and "alloc_bf s n = Some (Some p, s')"
    and "bs = pre @ (cs, False) # suf" and "p = first_block s + span pre + 4"
  shows "mem s (p - 4) = hdr cs False (lastp True pre) \<and>
         round_up8 (n + 4) \<le> cs \<and>
         (8 \<le> cs - round_up8 (n + 4) \<longrightarrow>
            heap_is s' (pre @ (round_up8 (n + 4), True) # (cs - round_up8 (n + 4), False) # suf) \<and>
            mem s' (p - 4) = hdr (round_up8 (n + 4)) True (lastp True pre) \<and>
            mem s' (p - 4 + round_up8 (n + 4)) = hdr (cs - round_up8 (n + 4)) False True \<and>
            mem s' (p - 4 + cs - 4) = cs - round_up8 (n + 4)) \<and>
         (cs - round_up8 (n + 4) < 8 \<longrightarrow>
            heap_is s' (pre @ (cs, True) # suf) \<and>
            mem s' (p - 4) = hdr cs True (lastp True pre) \<and>
            (mem s (p - 4 + cs) \<noteq> 1 \<longrightarrow>
               mem s (p - 4 + cs) = hdr (fst (hd suf)) (snd (hd suf)) False \<and>
               mem s' (p - 4 + cs) = hdr (fst (hd suf)) (snd (hd suf)) True) \<and>
            (mem s (p - 4 + cs) = 1 \<longrightarrow> mem s' (p - 4 + cs) = 1))"
proof -
  let ?T = "round_up8 (n + 4)"
  let ?fb = "first_block s"
  from assms(1) have sg: "seg (mem s) ?fb True bs"
    and endm: "mem s (?fb + span bs) = 1"
    by (simp_all add: heap_is_def)
  note n = alloc_bf_success [OF assms(2)]
  note bs = assms(3) and p = assms(4)
  from alloc_bf_found [OF assms(1,2)] obtain pre0 sz0 suf0 where
    f: "found (n + 4) ?T ?fb bs (scan_blocks (n + 4) ?T ?fb bs None) pre0 sz0 suf0"
    and p0: "p = ?fb + span pre0 + 4"
    and s0: "s' = s\<lparr>mem := place_best (mem s) (?fb + span pre0) ?T\<rparr>"
    by blast
  have same: "?fb + span pre0 = ?fb + span pre" using p p0 by simp
  have s': "s' = s\<lparr>mem := place_best (mem s) (?fb + span pre) ?T\<rparr>"
    using s0 by (simp only: same)
  let ?b = "?fb + span pre"
  let ?pb = "lastp True pre"
  from sg have sp: "seg (mem s) ?fb True pre"
    and sb: "seg (mem s) ?b ?pb ((cs, False) # suf)"
    by (simp_all add: bs seg_append)
  from sb have cs: "0 < cs" "cs mod 8 = 0" and h: "mem s ?b = hdr cs False ?pb"
    and tl: "seg (mem s) (?b + cs) False suf"
    by simp_all
  have e: "mem s (?b + cs + span suf) = 1" using endm by (simp add: bs span_append add.assoc)
  from f have bs0: "bs = pre0 @ (sz0, False) # suf0" and fit0: "n + 4 \<le> sz0"
    unfolding found_def by blast+
  from sg have "seg (mem s) (?fb + span pre0) (lastp True pre0) ((sz0, False) # suf0)"
    by (simp add: bs0 seg_append)
  then have "0 < sz0" "sz0 mod 8 = 0" "mem s ?b = hdr sz0 False (lastp True pre0)"
    by (simp_all add: same)
  then have "c_div (mem s ?b) 8 * 8 = sz0" by (simp add: hdr_size)
  moreover have "c_div (mem s ?b) 8 * 8 = cs" by (simp add: h hdr_size cs)
  ultimately have fit: "n + 4 \<le> cs" using fit0 by simp
  have T: "0 < ?T" "?T mod 8 = 0" using round_up8_props [of "n + 4"] n by simp_all
  have Tle: "?T \<le> cs" using round_up8_le [OF cs(2), of "n + 4"] fit by simp
  have b: "p - 4 = ?b" by (simp add: p)
  have split: "heap_is s' (pre @ (?T, True) # (cs - ?T, False) # suf) \<and>
               mem s' (p - 4) = hdr ?T True ?pb \<and>
               mem s' (p - 4 + ?T) = hdr (cs - ?T) False True \<and>
               mem s' (p - 4 + cs - 4) = cs - ?T"
    if room: "8 \<le> cs - ?T"
  proof -
    have ne: "?T \<noteq> cs - 4" "cs \<noteq> 4" using T cs by presburger+
    from place_best_split_layout [OF sp sb e T room]
    have "heap_is s' (pre @ (?T, True) # (cs - ?T, False) # suf)"
      by (simp add: heap_is_def s' span_append add.assoc)
    moreover have "place_best (mem s) ?b ?T =
        (mem s)(?b + ?T := hdr (cs - ?T) False True, ?b + cs - 4 := cs - ?T, ?b := hdr ?T True ?pb)"
      using h cs T room by (rule place_best_split)
    ultimately show ?thesis using T room ne by (simp add: s' b)
  qed
  have whole: "heap_is s' (pre @ (cs, True) # suf) \<and>
               mem s' (p - 4) = hdr cs True ?pb \<and>
               (mem s (p - 4 + cs) \<noteq> 1 \<longrightarrow>
                  mem s (p - 4 + cs) = hdr (fst (hd suf)) (snd (hd suf)) False \<and>
                  mem s' (p - 4 + cs) = hdr (fst (hd suf)) (snd (hd suf)) True) \<and>
               (mem s (p - 4 + cs) = 1 \<longrightarrow> mem s' (p - 4 + cs) = 1)"
    if small: "cs - ?T < 8"
  proof -
    have eq: "?T = cs" using small Tle T cs by presburger
    from place_best_whole_layout [OF sp sb e]
    have 1: "heap_is s' (pre @ (cs, True) # suf)"
      by (simp add: heap_is_def s' eq span_append add.assoc)
    have pw: "place_best (mem s) ?b cs =
        (if mem s (?b + cs) \<noteq> 1 then (mem s)(?b + cs := mem s (?b + cs) + 2) else mem s)
          (?b := hdr cs True ?pb)"
      using h cs by (rule place_best_whole)
    have 2: "mem s' (p - 4) = hdr cs True ?pb" by (simp add: s' eq pw b)
    have 3: "mem s (?b + cs) = hdr (fst (hd suf)) (snd (hd suf)) False"
      if "mem s (?b + cs) \<noteq> 1"
    proof (cases suf)
      case Nil
      with e that show ?thesis by simp
    next
      case (Cons x r)
      with tl show ?thesis by (cases x) simp
    qed
    have 4: "mem s' (?b + cs) = mem s (?b + cs) + 2" if "mem s (?b + cs) \<noteq> 1"
      using that cs by (simp add: s' eq pw)
    have 5: "mem s' (?b + cs) = 1" if "mem s (?b + cs) = 1"
      using that cs by (simp add: s' eq pw)
    show ?thesis using 1 2 3 4 5 by (auto simp: b hdr_def)
  qed
  have h': "mem s (p - 4) = hdr cs False ?pb" using h by (simp only: b)
  have A: "8 \<le> cs - ?T \<longrightarrow>
              heap_is s' (pre @ (?T, True) # (cs - ?T, False) # suf) \<and>
              mem s' (p - 4) = hdr ?T True ?pb \<and>
              mem s' (p - 4 + ?T) = hdr (cs - ?T) False True \<and>
              mem s' (p - 4 + cs - 4) = cs - ?T"
    using split by (rule impI)
  have B: "cs - ?T < 8 \<longrightarrow>
              heap_is s' (pre @ (cs, True) # suf) \<and>
              mem s' (p - 4) = hdr cs True ?pb \<and>
              (mem s (p - 4 + cs) \<noteq> 1 \<longrightarrow>
                 mem s (p - 4 + cs) = hdr (fst (hd suf)) (snd (hd suf)) False \<and>
                 mem s' (p - 4 + cs) = hdr (fst (hd suf)) (snd (hd suf)) True) \<and>
              (mem s (p - 4 + cs) = 1 \<longrightarrow> mem s' (p - 4 + cs) = 1)"
    using whole by (rule impI)
  show ?thesis
    by (intro conjI h' Tle A B)
qed

theorem alloc_bf_split_rule_witness:
  "heap_is tie_heap tie_blocks \<and>
   alloc_bf tie_heap 12 =
     Some (Some 65616, tie_heap\<lparr>mem := place_best (mem tie_heap) 65612 16\<rparr>) \<and>
   heap_is (tie_heap\<lparr>mem := place_best (mem tie_heap) 65612 16\<rparr>)
     [(16, True), (32, False), (24, True), (16, True), (8, False), (16, True), (24, False)] \<and>
   place_best (mem tie_heap) 65612 16 65612 = 19 \<and>
   place_best (mem tie_heap) 65612 16 65628 = 10 \<and>
   place_best (mem tie_heap) 65612 16 65632 = 8 \<and>
   alloc_bf tie_heap 20 =
     Some (Some 65616, tie_heap\<lparr>mem := place_best (mem tie_heap) 65612 24\<rparr>) \<and>
   heap_is (tie_heap\<lparr>mem := place_best (mem tie_heap) 65612 24\<rparr>)
     [(16, True), (32, False), (24, True), (24, True), (16, True), (24, False)] \<and>
   place_best (mem tie_heap) 65612 24 65612 = 27 \<and>
   mem tie_heap 65636 = 17 \<and> place_best (mem tie_heap) 65612 24 65636 = 19"
proof -
  have d: "tie_blocks = [(16, True), (32, False), (24, True)] @ (24, False) # [(16, True), (24, False)]"
    by (simp add: tie_blocks_def)
  have p: "65616 = first_block tie_heap + span [(16, True), (32, False), (24, True)] + 4"
    by (simp add: tie_heap_def)
  have m: "mem tie_heap 65636 = 17" by (simp add: tie_heap_def)
  note a = alloc_bf_split_rule [OF tie_heap_layout tie_alloc_12 d p]
  note b = alloc_bf_split_rule [OF tie_heap_layout tie_alloc_20 d p]
  from a have a': "heap_is (tie_heap\<lparr>mem := place_best (mem tie_heap) 65612 16\<rparr>)
     [(16, True), (32, False), (24, True), (16, True), (8, False), (16, True), (24, False)] \<and>
   place_best (mem tie_heap) 65612 16 65612 = 19 \<and>
   place_best (mem tie_heap) 65612 16 65628 = 10 \<and>
   place_best (mem tie_heap) 65612 16 65632 = 8"
    by (simp add: round_up8_def hdr_def)
  from b m have b': "heap_is (tie_heap\<lparr>mem := place_best (mem tie_heap) 65612 24\<rparr>)
     [(16, True), (32, False), (24, True), (24, True), (16, True), (24, False)] \<and>
   place_best (mem tie_heap) 65612 24 65612 = 27 \<and>
   place_best (mem tie_heap) 65612 24 65636 = 19"
    by (simp add: round_up8_def hdr_def)
  from a' b' m tie_heap_layout tie_alloc_12 tie_alloc_20 show ?thesis by simp
qed

text \<open>
  Claim C4, as amended.  A successful \<open>initRegion\<close> rounds the region up to a page
  multiple \<open>padded\<close>, leaves 4 bytes of padding in front, and writes the header of the first
  block at \<open>mem_ptr + 4\<close> with size \<open>padded - 8\<close> (the padding and the end mark taken off),
  a-bit clear and p-bit set, the footer \<open>padded - 8\<close> in the last cell of the block, and the
  end mark 1 right behind the block.
\<close>

theorem initRegion_layout:
  assumes "done_flag s = 0" and "0 < regionSize" and "16 \<le> getpagesize e"
    and "open_dev_zero e \<noteq> - 1"
    and "padded = regionSize + (getpagesize e - regionSize mod getpagesize e) mod getpagesize e"
    and "padded \<le> 2147483647" and "mmap e padded = Some mem_ptr"
    and "s' = snd (initRegion e s regionSize)"
  shows "fst (initRegion e s regionSize) = 0 \<and>
         padded mod getpagesize e = 0 \<and> regionSize \<le> padded \<and> padded < regionSize + getpagesize e \<and>
         first_block s' = mem_ptr + 4 \<and> mem s' mem_ptr = 0 \<and>
         mem s' (first_block s') = hdr (padded - 8) False True \<and>
         mem s' (first_block s' + (padded - 8) - 4) = padded - 8 \<and>
         mem s' (first_block s' + (padded - 8)) = 1 \<and>
         done_flag s' = 1 \<and> totalallocation s' = totalallocation s \<and>
         (getpagesize e mod 8 = 0 \<longrightarrow> heap_is s' [(padded - 8, False)])"
proof -
  have ps: "0 < getpagesize e" using assms(3) by simp
  note eq = initRegion_success [OF assms(1,2) ps assms(4-7)]
  note ru = page_round_up [OF assms(2) ps, folded assms(5)]
  have big: "16 \<le> padded" using ru(2) assms(3) by simp
  have 1: "fst (initRegion e s regionSize) = 0" by (simp add: eq)
  have 2: "first_block s' = mem_ptr + 4" by (simp add: assms(8) eq)
  have 3: "mem s' mem_ptr = 0" using big by (simp add: assms(8) eq)
  have 4: "mem s' (first_block s') = hdr (padded - 8) False True"
    using big by (simp add: assms(8) eq hdr_def)
  have 5: "mem s' (first_block s' + (padded - 8) - 4) = padded - 8"
    by (simp add: assms(8) eq)
  have 6: "mem s' (first_block s' + (padded - 8)) = 1" by (simp add: assms(8) eq)
  have 7: "done_flag s' = 1" "totalallocation s' = totalallocation s"
    by (simp_all add: assms(8) eq)
  have 8: "heap_is s' [(padded - 8, False)]" if "getpagesize e mod 8 = 0"
  proof -
    have "padded mod 8 = 0" using ru(1) that by (meson dvd_trans mod_0_imp_dvd dvd_imp_mod_0)
    then have "(padded - 8) mod 8 = 0" by presburger
    then show ?thesis using big 4 5 6 by (simp add: heap_is_def)
  qed
  show ?thesis using 1 ru(1,3,4) 2 3 4 5 6 7 8 by (intro conjI impI) assumption+
qed

theorem initRegion_layout_witness:
  "done_flag initial_state = 0 \<and> (0::int) < 4096 \<and> 16 \<le> getpagesize demo_env \<and>
   open_dev_zero demo_env \<noteq> - 1 \<and> mmap demo_env 4096 = Some 65536 \<and>
   fst (initRegion demo_env initial_state 4096) = 0 \<and>
   first_block (snd (initRegion demo_env initial_state 4096)) = 65540 \<and>
   mem (snd (initRegion demo_env initial_state 4096)) 65540 = 4090 \<and>
   mem (snd (initRegion demo_env initial_state 4096)) 69624 = 4088 \<and>
   mem (snd (initRegion demo_env initial_state 4096)) 69628 = 1 \<and>
   totalallocation (snd (initRegion demo_env initial_state 4096)) = 0 \<and>
   heap_is (snd (initRegion demo_env initial_state 4096)) [(4088, False)]"
proof -
  have h: "done_flag initial_state = 0" "(0::int) < 4096" "16 \<le> getpagesize demo_env"
    "open_dev_zero demo_env \<noteq> - 1"
    "(4096::int) = 4096 + (getpagesize demo_env - 4096 mod getpagesize demo_env) mod getpagesize demo_env"
    "(4096::int) \<le> 2147483647" "mmap demo_env 4096 = Some 65536"
    by (simp_all add: initial_state_def demo_env_def)
  have t: "totalallocation initial_state = 0" "getpagesize demo_env mod 8 = 0"
    by (simp_all add: initial_state_def demo_env_def)
  from initRegion_layout [OF h refl] h t show ?thesis by (clarsimp simp: hdr_def)
qed

text \<open>
  Claim C4 as stated, with the size of the first block at the padded size minus the 4 bytes
  of the end mark, fails: after \<open>init(4096)\<close> the first block has size 4088, not 4092.
\<close>

theorem initRegion_size_counterexample:
  "fst (initRegion demo_env initial_state 4096) = 0 \<and>
   c_div (mem (snd (initRegion demo_env initial_state 4096))
            (first_block (snd (initRegion demo_env initial_state 4096)))) 8 * 8 = 4088 \<and>
   c_div (mem (snd (initRegion demo_env initial_state 4096))
            (first_block (snd (initRegion demo_env initial_state 4096)))) 8 * 8 \<noteq> 4096 - 4"
  by (simp only: demo_init snd_conv fst_conv) (simp add: initial_state_def c_div_def)

text \<open>
  Claim C5.  In a state where \<open>first_block\<close> is 4 modulo 8 (as \<open>initRegion\<close> leaves it on
  an 8-aligned mapping) and \<open>totalallocation\<close> is a multiple of 8, \<open>free_block\<close> tests in
  this order: null address, address not a multiple of 8, address outside
  \<open>[first_block, first_block + totalallocation)\<close>, block not allocated; each gives \<open>-1\<close>
  and the state unchanged, and every address outside that interval is rejected.
\<close>

theorem free_block_validation:
  assumes "first_block s mod 8 = 4" and "totalallocation s mod 8 = 0"
    and "0 \<le> first_block s" and "0 \<le> totalallocation s"
    and "first_block s + totalallocation s < 4294967296"
  shows "free_block s ptr =
           (if ptr = 0 then (NullPtr, s)
            else if ptr mod 8 \<noteq> 0 then (Misaligned, s)
            else if \<not> (first_block s \<le> ptr \<and> ptr < first_block s + totalallocation s)
              then (OutOfHeap, s)
            else if c_mod (mem s (ptr - 4)) 2 \<noteq> 1 then (NotAllocated, s)
            else (FreeOk, snd (free_block s ptr))) \<and>
         (\<not> (first_block s \<le> ptr \<and> ptr < first_block s + totalallocation s) \<longrightarrow>
            free_rc (fst (free_block s ptr)) = - 1)"
proof -
  have w: "(first_block s + totalallocation s) mod 4294967296 = first_block s + totalallocation s"
    using assms(3-5) by simp
  have edge: "(first_block s + totalallocation s) mod 8 = 4"
    using assms(1,2) by presburger
  have r: "ptr > first_block s + totalallocation s \<longleftrightarrow> \<not> ptr < first_block s + totalallocation s"
    if "ptr mod 8 = 0"
    using that edge by (cases "ptr = first_block s + totalallocation s") auto
  have 1: "free_block s ptr =
           (if ptr = 0 then (NullPtr, s)
            else if ptr mod 8 \<noteq> 0 then (Misaligned, s)
            else if \<not> (first_block s \<le> ptr \<and> ptr < first_block s + totalallocation s)
              then (OutOfHeap, s)
            else if c_mod (mem s (ptr - 4)) 2 \<noteq> 1 then (NotAllocated, s)
            else (FreeOk, snd (free_block s ptr)))"
    using r by (auto simp: free_block_def w Let_def)
  have 2: "\<not> (first_block s \<le> ptr \<and> ptr < first_block s + totalallocation s) \<longrightarrow>
            free_rc (fst (free_block s ptr)) = - 1"
    by (subst 1) simp
  from 1 2 show ?thesis by (rule conjI)
qed

theorem free_block_validation_witness:
  "first_block tie_heap mod 8 = 4 \<and> totalallocation tie_heap mod 8 = 0 \<and>
   0 \<le> first_block tie_heap \<and> 0 \<le> totalallocation tie_heap \<and>
   first_block tie_heap + totalallocation tie_heap < 4294967296 \<and>
   free_block tie_heap 0 = (NullPtr, tie_heap) \<and>
   free_block tie_heap 69636 = (Misaligned, tie_heap) \<and>
   free_block tie_heap 69640 = (OutOfHeap, tie_heap) \<and>
   free_rc (fst (free_block tie_heap 69640)) = - 1 \<and>
   free_block tie_heap 65560 = (NotAllocated, tie_heap) \<and>
   fst (free_block tie_heap 65592) = FreeOk"
proof -
  have h: "first_block tie_heap mod 8 = 4" "totalallocation tie_heap mod 8 = 0"
    "0 \<le> first_block tie_heap" "0 \<le> totalallocation tie_heap"
    "first_block tie_heap + totalallocation tie_heap < 4294967296"
    by (simp_all add: tie_heap_def)
  note v = free_block_validation [OF h]
  have m: "mem tie_heap 65556 = 34" "mem tie_heap 65588 = 25"
    "first_block tie_heap = 65540" "totalallocation tie_heap = 4096"
    by (simp_all add: tie_heap_def)
  have 1: "free_block tie_heap 0 = (NullPtr, tie_heap)" using v [of 0] by simp
  have 2: "free_block tie_heap 69636 = (Misaligned, tie_heap)" using v [of 69636] by simp
  have 3: "free_block tie_heap 69640 = (OutOfHeap, tie_heap)"
    "free_rc (fst (free_block tie_heap 69640)) = - 1"
    using v [of 69640] by (simp_all add: m)
  have 4: "free_block tie_heap 65560 = (NotAllocated, tie_heap)"
    using v [of 65560] by (simp add: m c_mod_def c_div_def)
  have "free_block tie_heap 65592 = (FreeOk, snd (free_block tie_heap 65592))"
    using v [of 65592] by (simp add: m c_mod_def c_div_def)
  then have 5: "fst (free_block tie_heap 65592) = FreeOk"
    by (rule ssubst) simp
  from h 1 2 3 4 5 show ?thesis by simp
qed

text \<open>
  Claim C6.  On a heap laid out as a block list, a successful \<open>free_block\<close> of the payload
  address of an allocated block clears the a-bit of its header and nothing else in it, writes
  the size into the last cell of the block, clears the p-bit of the next header unless that is
  the end mark, and changes no other cell: the block list is the old one with this block
  free, also next to free neighbours.
\<close>

theorem free_block_marks_free:
  assumes "heap_is s bs" and "bs = pre @ (sz, True) # suf"
    and "ptr = first_block s + span pre + 4" and "free_block s ptr = (FreeOk, s')"
  shows "heap_is s' (pre @ (sz, False) # suf) \<and>
         mem s (ptr - 4) = hdr sz True (lastp True pre) \<and>
         mem s' (ptr - 4) = hdr sz False (lastp True pre) \<and>
         mem s' (ptr - 4 + sz - 4) = sz \<and>
         (mem s (ptr - 4 + sz) \<noteq> 1 \<longrightarrow>
            mem s (ptr - 4 + sz) = hdr (fst (hd suf)) (snd (hd suf)) True \<and>
            mem s' (ptr - 4 + sz) = hdr (fst (hd suf)) (snd (hd suf)) False) \<and>
         (mem s (ptr - 4 + sz) = 1 \<longrightarrow> mem s' (ptr - 4 + sz) = 1) \<and>
         (\<forall>x. x \<noteq> ptr - 4 \<and> x \<noteq> ptr - 4 + sz - 4 \<and> x \<noteq> ptr - 4 + sz \<longrightarrow> mem s' x = mem s x) \<and>
         first_block s' = first_block s \<and> totalallocation s' = totalallocation s"
proof -
  let ?fb = "first_block s"
  let ?b = "?fb + span pre"
  let ?pb = "lastp True pre"
  let ?m = "mem s"
  have b: "ptr - 4 = ?b" using assms(3) by simp
  from assms(1) have sg: "seg ?m ?fb True bs" and endm: "?m (?fb + span bs) = 1"
    by (simp_all add: heap_is_def)
  from sg have sp: "seg ?m ?fb True pre" and sb: "seg ?m ?b ?pb ((sz, True) # suf)"
    by (simp_all add: assms(2) seg_append)
  from sb have sz: "0 < sz" "sz mod 8 = 0" and h: "?m ?b = hdr sz True ?pb"
    and tl: "seg ?m (?b + sz) True suf"
    by simp_all
  have big: "8 \<le> sz" using sz by presburger
  have e: "?m (?b + sz + span suf) = 1" using endm by (simp add: assms(2) span_append add.assoc)
  have nn: "0 \<le> span suf" using tl by (rule seg_span_nonneg)
  let ?m2 = "?m(?b := hdr sz False ?pb, ?b + sz - 4 := sz)"
  let ?m3 = "if ?m (?b + sz) \<noteq> 1 then ?m2(?b + sz := ?m (?b + sz) - 2) else ?m2"
  have s': "s' = s\<lparr>mem := ?m3\<rparr>"
    using free_block_mem [OF _ sz assms(4), of ?pb] h by (simp add: b)
  have tl2: "seg ?m2 (?b + sz) True suf"
    using seg_frame [OF tl, of ?m2] sz by simp
  have t3: "seg ?m3 (?b + sz) False suf \<and> ?m3 (?b + sz + span suf) = 1 \<and>
            (?m (?b + sz) \<noteq> 1 \<longrightarrow>
               ?m (?b + sz) = hdr (fst (hd suf)) (snd (hd suf)) True \<and>
               ?m3 (?b + sz) = hdr (fst (hd suf)) (snd (hd suf)) False)"
  proof (cases suf)
    case Nil
    with e big show ?thesis by simp
  next
    case (Cons x r)
    obtain s2 a2 where x: "x = (s2, a2)" by (cases x)
    from tl have s2: "0 < s2" "s2 mod 8 = 0" and h2: "?m (?b + sz) = hdr s2 a2 True"
      by (simp_all add: Cons x)
    have big2: "8 \<le> s2" using s2 by presburger
    have ne: "?m (?b + sz) \<noteq> 1" by (simp add: h2 hdr_not_end s2)
    have m3: "?m3 = ?m2(?b + sz := ?m2 (?b + sz) - 2)" using ne big by simp
    have "seg (?m2(?b + sz := ?m2 (?b + sz) - 2)) (?b + sz) False (x # r)"
      using tl2 unfolding Cons by (rule seg_pbit_clear)
    then have g1: "seg ?m3 (?b + sz) False suf" by (simp only: m3 Cons)
    have "0 \<le> span r" using tl by (auto simp: Cons x dest: seg_span_nonneg)
    then have "?b + sz + span suf \<noteq> ?b + sz" "?b + sz + span suf \<noteq> ?b + sz - 4"
      "?b + sz + span suf \<noteq> ?b"
      using big2 big by (simp_all add: Cons x)
    then have g2: "?m3 (?b + sz + span suf) = 1" using e ne by simp
    have g3: "?m3 (?b + sz) = hdr (fst (hd suf)) (snd (hd suf)) False"
      using ne big by (simp add: Cons x h2 hdr_def)
    have g4: "?m (?b + sz) = hdr (fst (hd suf)) (snd (hd suf)) True"
      by (simp add: Cons x h2)
    from g1 g2 g3 g4 show ?thesis by blast
  qed
  have fr: "?m3 x = ?m x" if "x < ?b" for x using that big by simp
  have p3: "seg ?m3 ?fb True pre"
    by (rule seg_frame [OF sp]) (use fr in blast)
  have hb: "?m3 ?b = hdr sz False ?pb" using big by simp
  have fb: "?m3 (?b + sz - 4) = sz" using big by simp
  have "seg ?m3 ?b ?pb ((sz, False) # suf)"
    using t3 hb fb sz by simp
  with p3 have "seg ?m3 ?fb True (pre @ (sz, False) # suf)"
    by (subst seg_append) blast
  then have 1: "heap_is s' (pre @ (sz, False) # suf)"
    using t3 by (simp add: heap_is_def s' span_append add.assoc)
  have 2: "mem s (ptr - 4) = hdr sz True ?pb" using h by (simp only: b)
  have 3: "mem s' (ptr - 4) = hdr sz False ?pb" using hb by (simp only: b s') simp
  have 4: "mem s' (ptr - 4 + sz - 4) = sz" using fb by (simp only: b s') simp
  have 5: "mem s (ptr - 4 + sz) \<noteq> 1 \<longrightarrow>
            mem s (ptr - 4 + sz) = hdr (fst (hd suf)) (snd (hd suf)) True \<and>
            mem s' (ptr - 4 + sz) = hdr (fst (hd suf)) (snd (hd suf)) False"
    using t3 by (simp only: b s') simp
  have 6: "mem s (ptr - 4 + sz) = 1 \<longrightarrow> mem s' (ptr - 4 + sz) = 1"
    using big by (simp add: b s')
  have 7: "\<forall>x. x \<noteq> ptr - 4 \<and> x \<noteq> ptr - 4 + sz - 4 \<and> x \<noteq> ptr - 4 + sz \<longrightarrow> mem s' x = mem s x"
    by (simp add: b s')
  have 8: "first_block s' = first_block s" "totalallocation s' = totalallocation s"
    by (simp_all add: s')
  show ?thesis by (intro conjI 1 2 3 4 5 6 7 8)
qed

theorem free_block_marks_free_witness:
  "heap_is tie_heap tie_blocks \<and>
   free_block tie_heap 65592 = (FreeOk, snd (free_block tie_heap 65592)) \<and>
   heap_is (snd (free_block tie_heap 65592))
     [(16, True), (32, False), (24, False), (24, False), (16, True), (24, False)] \<and>
   mem tie_heap 65588 = 25 \<and> mem (snd (free_block tie_heap 65592)) 65588 = 24 \<and>
   mem (snd (free_block tie_heap 65592)) 65608 = 24 \<and>
   mem tie_heap 65612 = 26 \<and> mem (snd (free_block tie_heap 65592)) 65612 = 24 \<and>
   mem (snd (free_block tie_heap 65592)) 65556 = 34"
proof -
  have d: "tie_blocks = [(16, True), (32, False)] @ (24, True) # [(24, False), (16, True), (24, False)]"
    by (simp add: tie_blocks_def)
  have p: "65592 = first_block tie_heap + span [(16, True), (32, False)] + 4"
    by (simp add: tie_heap_def)
  have m: "mem tie_heap 65556 = 34" "mem tie_heap 65588 = 25" "mem tie_heap 65612 = 26"
    by (simp_all add: tie_heap_def)
  from free_block_marks_free [OF tie_heap_layout d p tie_free] m tie_heap_layout tie_free
  show ?thesis by (simp add: hdr_def)
qed

text \<open>
  Claim C7.  On a heap laid out as a block list, one call of \<open>coalesce\<close> returns, and
  the heap it leaves is laid out as the list with every run of free blocks joined: no two
  consecutive blocks of it are free, and a run of free blocks between allocated neighbours
  (or the ends of the heap) has become the single block spanning the run.
\<close>

theorem coalesce_no_adjacent_free:
  assumes "heap_is s bs"
  shows "\<exists>s'. coalesce s = Some (0, s') \<and> heap_is s' (merge_free bs) \<and>
           no_adjacent_free (merge_free bs) \<and>
           (\<forall>pre run post. bs = pre @ run @ post \<and> run \<noteq> [] \<and> (\<forall>b\<in>set run. \<not> snd b) \<and>
               lastp True pre \<and> (post = [] \<or> snd (hd post)) \<longrightarrow>
               merge_free bs = merge_free pre @ (span run, False) # merge_free post)"
  using coalesce_heap [OF assms] no_adjacent_free_merge_free [of bs] merge_free_collapses_run
  by blast

theorem coalesce_no_adjacent_free_witness:
  "heap_is frag_heap frag_blocks \<and>
   (\<exists>s'. coalesce frag_heap = Some (0, s') \<and>
      heap_is s' [(16, True), (32, False), (24, True), (8, False)]) \<and>
   no_adjacent_free [(16, True), (32, False), (24, True), (8, False)] \<and>
   merge_free ([(16, True)] @ [(8, False), (16, False), (8, False)] @ [(24, True), (8, False)]) =
     merge_free [(16, True)] @
       (span [(8, False), (16, False), (8, False)], False) # merge_free [(24, True), (8, False)]"
proof -
  from coalesce_no_adjacent_free [OF frag_heap_layout] obtain s' where
    c: "coalesce frag_heap = Some (0, s')" and h: "heap_is s' (merge_free frag_blocks)"
    and n: "no_adjacent_free (merge_free frag_blocks)"
    and r: "\<forall>pre run post. frag_blocks = pre @ run @ post \<and> run \<noteq> [] \<and>
               (\<forall>b\<in>set run. \<not> snd b) \<and> lastp True pre \<and> (post = [] \<or> snd (hd post)) \<longrightarrow>
               merge_free frag_blocks =
                 merge_free pre @ (span run, False) # merge_free post"
    by blast
  have m: "merge_free frag_blocks = [(16, True), (32, False), (24, True), (8, False)]"
    by (simp add: frag_blocks_def)
  have "merge_free frag_blocks =
          merge_free [(16, True)] @
            (span [(8, False), (16, False), (8, False)], False) # merge_free [(24, True), (8, False)]"
    by (rule r [rule_format]) (simp add: frag_blocks_def)
  then show ?thesis
    using frag_heap_layout c h n by (simp add: m frag_blocks_def)
qed

text \<open>
  Claim C8.  On a heap laid out as a block list, a second call of \<open>coalesce\<close> right after
  the first returns and leaves the state of the first call unchanged, cell for cell.
\<close>

theorem coalesce_idempotent:
  assumes "heap_is s bs"
  shows "\<exists>s1. coalesce s = Some (0, s1) \<and> coalesce s1 = Some (0, s1)"
proof -
  from coalesce_heap [OF assms] obtain m' where
    c: "coalesce s = Some (0, s\<lparr>mem := m'\<rparr>)" and h: "heap_is (s\<lparr>mem := m'\<rparr>) (merge_free bs)"
    by blast
  from h have "coalesce_loop m' (first_block s) = Some m'"
    using coalesce_loop_fixed [of m' "first_block s" True "merge_free bs"]
    by (simp add: heap_is_def no_adjacent_free_merge_free)
  then have "coalesce (s\<lparr>mem := m'\<rparr>) = Some (0, s\<lparr>mem := m'\<rparr>)"
    by (simp add: coalesce_def)
  with c show ?thesis by blast
qed

theorem coalesce_idempotent_witness:
  "heap_is frag_heap frag_blocks \<and>
   (\<exists>s1. coalesce frag_heap = Some (0, s1) \<and> coalesce s1 = Some (0, s1))"
  using coalesce_idempotent [OF frag_heap_layout] frag_heap_layout by simp

text \<open>
  Claim C9.  A failing \<open>initRegion\<close>, an \<open>alloc_bf\<close> that returns \<open>NULL\<close> and a failing
  \<open>free_block\<close> return the state they were called in.
\<close>

theorem failed_call_leaves_state:
  "(fst (initRegion e s r) \<noteq> 0 \<longrightarrow> snd (initRegion e s r) = s) \<and>
   (alloc_bf s n = Some (None, s') \<longrightarrow> s' = s) \<and>
   (fst (free_block s p) \<noteq> FreeOk \<longrightarrow> snd (free_block s p) = s)"
proof (intro conjI impI)
  assume "fst (initRegion e s r) \<noteq> 0"
  then show "snd (initRegion e s r) = s"
    by (auto simp: initRegion_def Let_def split: if_splits option.splits)
next
  assume "alloc_bf s n = Some (None, s')"
  then show "s' = s"
    by (auto simp: alloc_bf_def Let_def split: if_splits option.splits prod.splits)
next
  assume "fst (free_block s p) \<noteq> FreeOk"
  then show "snd (free_block s p) = s"
    by (auto simp: free_block_def Let_def split: if_splits)
qed

theorem failed_call_leaves_state_witness:
  "fst (initRegion demo_env (snd (initRegion demo_env initial_state 4096)) 4096) \<noteq> 0 \<and>
   snd (initRegion demo_env (snd (initRegion demo_env initial_state 4096)) 4096) =
     snd (initRegion demo_env initial_state 4096) \<and>
   alloc_bf tie_heap 100 = Some (None, tie_heap) \<and>
   fst (free_block frag_heap 65560) \<noteq> FreeOk \<and>
   snd (free_block frag_heap 65560) = frag_heap"
proof -
  let ?s1 = "snd (initRegion demo_env initial_state 4096)"
  have i: "fst (initRegion demo_env ?s1 4096) \<noteq> 0"
    by (simp only: demo_init snd_conv) (simp add: initRegion_def)
  have f: "fst (free_block frag_heap 65560) \<noteq> FreeOk" by (simp add: frag_double_free)
  from failed_call_leaves_state [of demo_env ?s1 4096 100 tie_heap 0] i
  have 1: "snd (initRegion demo_env ?s1 4096) = ?s1" by blast
  from failed_call_leaves_state [of demo_env frag_heap 4096 100 frag_heap 65560] f
  have 2: "snd (free_block frag_heap 65560) = frag_heap" by blast
  from failed_call_leaves_state [of demo_env tie_heap 4096 100 tie_heap 0] tie_alloc_100
  have 3: "alloc_bf tie_heap 100 = Some (None, tie_heap)" by blast
  from i 1 2 3 f show ?thesis by blast
qed

text \<open>
  Claim C10.  On a heap laid out as a block list, \<open>coalesce\<close> changes no cell of an
  allocated block (header or payload) and not the end mark: every cell outside the free
  blocks holds after the call what it held before, and the globals are untouched.
\<close>

theorem coalesce_frame:
  assumes "heap_is s bs" and "coalesce s = Some (rc, s')"
  shows "(\<forall>pre sz suf x. bs = pre @ (sz, True) # suf \<and>
             first_block s + span pre \<le> x \<and> x < first_block s + span pre + sz \<longrightarrow>
             mem s' x = mem s x) \<and>
         mem s' (first_block s + span bs) = mem s (first_block s + span bs) \<and>
         (\<forall>x. x \<notin> free_cells (first_block s) bs \<longrightarrow> mem s' x = mem s x) \<and>
         first_block s' = first_block s \<and> totalallocation s' = totalallocation s"
proof -
  from coalesce_heap [OF assms(1)] assms(2) obtain m' where
    s': "s' = s\<lparr>mem := m'\<rparr>" and
    fr: "\<forall>x. x \<notin> free_cells (first_block s) bs \<longrightarrow> m' x = mem s x"
    by auto
  from assms(1) have lay: "seg (mem s) (first_block s) True bs" by (simp add: heap_is_def)
  have 1: "\<forall>pre sz suf x. bs = pre @ (sz, True) # suf \<and>
             first_block s + span pre \<le> x \<and> x < first_block s + span pre + sz \<longrightarrow>
             mem s' x = mem s x"
    using alloc_block_not_free_cell lay fr by (auto simp: s')
  have 2: "mem s' (first_block s + span bs) = mem s (first_block s + span bs)"
    using end_mark_not_free_cell [OF lay] fr by (simp add: s')
  show ?thesis using 1 2 fr by (simp add: s')
qed

theorem coalesce_frame_witness:
  "heap_is frag_heap frag_blocks \<and>
   (\<exists>s'. coalesce frag_heap = Some (0, s') \<and>
      mem s' 65540 = 19 \<and> mem s' 65588 = 25 \<and> mem s' 65620 = 1 \<and> first_block s' = 65540)"
proof -
  from coalesce_heap [OF frag_heap_layout] obtain m' where
    c: "coalesce frag_heap = Some (0, frag_heap\<lparr>mem := m'\<rparr>)"
    by blast
  let ?s' = "frag_heap\<lparr>mem := m'\<rparr>"
  note f = coalesce_frame [OF frag_heap_layout c]
  from f have blk: "\<And>pre sz suf x. frag_blocks = pre @ (sz, True) # suf \<and>
       first_block frag_heap + span pre \<le> x \<and> x < first_block frag_heap + span pre + sz \<Longrightarrow>
       mem ?s' x = mem frag_heap x"
    by blast
  have 1: "mem ?s' 65540 = mem frag_heap 65540"
    by (rule blk [of "[]" 16 "tl frag_blocks"]) (simp add: frag_blocks_def frag_heap_def)
  have 2: "mem ?s' 65588 = mem frag_heap 65588"
    by (rule blk [of "take 4 frag_blocks" 24 "drop 5 frag_blocks"])
      (simp add: frag_blocks_def frag_heap_def)
  from f have 3: "mem ?s' 65620 = mem frag_heap 65620"
    by (simp add: frag_blocks_def frag_heap_def)
  from f have 4: "first_block ?s' = 65540" by (simp add: frag_heap_def)
  have "mem ?s' 65540 = 19 \<and> mem ?s' 65588 = 25 \<and> mem ?s' 65620 = 1"
    using 1 2 3 by (simp add: frag_heap_def)
  with c 4 frag_heap_layout show ?thesis by blast
qed

end
